theory Spec2Isabelle
  imports Main "HOL-Library.AList" "HOL-Library.Sublist"
begin

section \<open>Text\<close>

text \<open>
  A Python \<open>str\<close> is a sequence of Unicode code points. A code point is modelled as a
  natural number and a \<open>str\<close> as a list of them. \<open>str\<close> turns an Isabelle string
  literal (ASCII) into such a text, so that \<open>str ''L''\<close> is the text \<open>[76]\<close>.
\<close>

type_synonym codepoint = nat
type_synonym pystr = "codepoint list"

definition str :: "string \<Rightarrow> pystr" where
  "str s = map of_char s"

text \<open>
  \<open>str.lower()\<close>. On a text of ASCII code points it turns \<open>A\<close>..\<open>Z\<close> into \<open>a\<close>..\<open>z\<close> and
  leaves the rest. On any other text it follows the case table of the Unicode database
  of the Python at hand, which is no part of the repository: that conversion is the
  parameter \<open>unicode_lower\<close>.
\<close>

definition lower_cp :: "codepoint \<Rightarrow> codepoint" where
  "lower_cp c = (if 65 \<le> c \<and> c \<le> 90 then c + 32 else c)"

definition str_lower :: "(pystr \<Rightarrow> pystr) \<Rightarrow> pystr \<Rightarrow> pystr" where
  "str_lower unicode_lower s =
     (if list_all (\<lambda>c. c < 128) s then map lower_cp s else unicode_lower s)"

text \<open>\<open>s.split(",")\<close>: one field more than there are separators, empty fields kept.\<close>

fun str_split :: "codepoint \<Rightarrow> pystr \<Rightarrow> pystr list" where
  "str_split sep [] = [[]]"
| "str_split sep (c # cs) =
     (if c = sep then [] # str_split sep cs
      else (case str_split sep cs of w # ws \<Rightarrow> (c # w) # ws | [] \<Rightarrow> [[c]]))"

section \<open>The pattern of \<open>extract_localization_strings\<close>\<close>

text \<open>
  The pattern is
  \<^verbatim>\<open>(I1|...|In)\s*[\[\(](["\'])((?:(?!\2).)*)\2[\]\)]\<close>
  where \<open>I1\<close>, ..., \<open>In\<close> are the escaped identifiers, matched literally. It is compiled
  without flags, so \<open>\s\<close> is the Unicode white space of \<open>str.isspace\<close> and \<open>.\<close> is
  any code point but the line feed (10).
\<close>

definition is_space :: "codepoint \<Rightarrow> bool" where
  "is_space c \<longleftrightarrow>
     (9 \<le> c \<and> c \<le> 13) \<or> (28 \<le> c \<and> c \<le> 32) \<or> c = 133 \<or> c = 160 \<or> c = 5760 \<or>
     (8192 \<le> c \<and> c \<le> 8202) \<or> c = 8232 \<or> c = 8233 \<or> c = 8239 \<or> c = 8287 \<or> c = 12288"

text \<open>\<open>[\[\(]\<close>, \<open>["\']\<close> and \<open>[\]\)]\<close>.\<close>

definition is_open :: "codepoint \<Rightarrow> bool" where
  "is_open c \<longleftrightarrow> c = 91 \<or> c = 40"

definition is_quote :: "codepoint \<Rightarrow> bool" where
  "is_quote c \<longleftrightarrow> c = 34 \<or> c = 39"

definition is_close :: "codepoint \<Rightarrow> bool" where
  "is_close c \<longleftrightarrow> c = 93 \<or> c = 41"

text \<open>
  One iteration of \<open>(?:(?!\2).)\<close> when group 2 holds the quote \<open>q\<close>: the next code
  point is not \<open>q\<close> (the negative lookahead) and is matched by \<open>.\<close>.
\<close>

definition lit_cp :: "codepoint \<Rightarrow> codepoint \<Rightarrow> bool" where
  "lit_cp q c \<longleftrightarrow> c \<noteq> q \<and> c \<noteq> 10"

text \<open>
  A greedy star over a one-code-point item, as the backtracking matcher runs it: take
  one more item when there is one and try the rest of the pattern from there; when that
  fails, give the item back and try the rest of the pattern from here. \<open>k\<close> is the rest
  of the pattern; it gets the code points the star has consumed and the remaining text.
\<close>

fun greedy_star ::
  "(codepoint \<Rightarrow> bool) \<Rightarrow> (pystr \<Rightarrow> pystr \<Rightarrow> 'a option) \<Rightarrow> pystr \<Rightarrow> pystr \<Rightarrow> 'a option" where
  "greedy_star P k acc [] = k acc []"
| "greedy_star P k acc (c # cs) =
     (if P c
      then (case greedy_star P k (acc @ [c]) cs of
              Some r \<Rightarrow> Some r
            | None \<Rightarrow> k acc (c # cs))
      else k acc (c # cs))"

text \<open>\<open>\2[\]\)]\<close>: the quote of group 2 again and a closing bracket. The result is the
  quote (group 2), the literal (group 3) and the text after the match.\<close>

definition closing :: "codepoint \<Rightarrow> pystr \<Rightarrow> pystr \<Rightarrow> (codepoint \<times> pystr \<times> pystr) option" where
  "closing q lit s =
     (case s of
        q' # cb # rest \<Rightarrow> if q' = q \<and> is_close cb then Some (q, lit, rest) else None
      | _ \<Rightarrow> None)"

text \<open>\<open>[\[\(](["\'])((?:(?!\2).)*)\<close> and then \<open>closing\<close>. The first argument is the white
  space that \<open>\s*\<close> has consumed; it belongs to no group.\<close>

definition quoted :: "pystr \<Rightarrow> pystr \<Rightarrow> (codepoint \<times> pystr \<times> pystr) option" where
  "quoted ws s =
     (case s of
        ob # q # s' \<Rightarrow>
          if is_open ob \<and> is_quote q then greedy_star (lit_cp q) (closing q) [] s' else None
      | _ \<Rightarrow> None)"

text \<open>Everything after group 1: \<open>\s*\<close> and then \<open>quoted\<close>.\<close>

definition after_ident :: "pystr \<Rightarrow> (codepoint \<times> pystr \<times> pystr) option" where
  "after_ident s = greedy_star is_space quoted [] s"

text \<open>
  Group 1, the alternation: the alternatives are tried in the order of the list, and
  one that matches is given up again when the rest of the pattern fails after it.
\<close>

fun alternation :: "pystr list \<Rightarrow> pystr \<Rightarrow> (pystr \<times> codepoint \<times> pystr \<times> pystr) option" where
  "alternation [] s = None"
| "alternation (i # js) s =
     (if prefix i s
      then (case after_ident (drop (length i) s) of
              Some (q, lit, rest) \<Rightarrow> Some (i, q, lit, rest)
            | None \<Rightarrow> alternation js s)
      else alternation js s)"

text \<open>
  \<open>"|".join(map(re.escape, identifiers))\<close>: an alternative for each identifier. The join
  of an empty list is the empty string, and the group \<open>()\<close> matches the empty text, as
  the one empty identifier does.
\<close>

definition alternatives :: "pystr list \<Rightarrow> pystr list" where
  "alternatives identifiers = (if identifiers = [] then [[]] else identifiers)"

text \<open>The pattern matched at the start of \<open>s\<close>: the three groups and the text after the match.\<close>

definition match_at :: "pystr list \<Rightarrow> pystr \<Rightarrow> (pystr \<times> codepoint \<times> pystr \<times> pystr) option" where
  "match_at identifiers s = alternation (alternatives identifiers) s"

lemma greedy_star_max:
  assumes "\<And>a c cs. P c \<Longrightarrow> k a (c # cs) = None"
  shows "greedy_star P k acc s = k (acc @ takeWhile P s) (dropWhile P s)"
proof (induction s arbitrary: acc)
  case Nil
  show ?case by simp
next
  case (Cons c cs)
  show ?case
  proof (cases "P c")
    case True
    have ih: "greedy_star P k (acc @ [c]) cs = k (acc @ c # takeWhile P cs) (dropWhile P cs)"
      using Cons[of "acc @ [c]"] by simp
    show ?thesis
    proof (cases "k (acc @ c # takeWhile P cs) (dropWhile P cs)")
      case None
      with True ih assms[of c acc cs] show ?thesis by simp
    next
      case (Some r)
      with True ih show ?thesis by simp
    qed
  next
    case False
    then show ?thesis by simp
  qed
qed

lemma quoted_space: "is_space c \<Longrightarrow> quoted a (c # cs) = None"
  by (auto simp: quoted_def is_space_def is_open_def split: list.splits)

lemma closing_lit: "lit_cp q c \<Longrightarrow> closing q a (c # cs) = None"
  by (auto simp: closing_def lit_cp_def split: list.splits)

lemma after_ident_eq: "after_ident s = quoted (takeWhile is_space s) (dropWhile is_space s)"
  unfolding after_ident_def using greedy_star_max[of is_space quoted "[]" s] quoted_space by simp

lemma lit_star_eq:
  "greedy_star (lit_cp q) (closing q) [] s =
     closing q (takeWhile (lit_cp q) s) (dropWhile (lit_cp q) s)"
  using greedy_star_max[of "lit_cp q" "closing q" "[]" s] closing_lit by simp

lemma quoted_eq:
  "quoted ws s =
     (case s of
        ob # q # s' \<Rightarrow>
          if is_open ob \<and> is_quote q
          then closing q (takeWhile (lit_cp q) s') (dropWhile (lit_cp q) s')
          else None
      | _ \<Rightarrow> None)"
  by (auto simp add: quoted_def lit_star_eq split: list.splits)


lemma after_ident_Some:
  assumes "after_ident s = Some (q, lit, rest)"
  shows "\<exists>ws ob cb. list_all is_space ws \<and> is_open ob \<and> is_quote q \<and> is_close cb \<and>
           list_all (lit_cp q) lit \<and> s = ws @ [ob, q] @ lit @ [q, cb] @ rest"
proof -
  let ?ws = "takeWhile is_space s"
  from assms obtain ob s' where d: "dropWhile is_space s = ob # q # s'"
    and o: "is_open ob" "is_quote q"
    and c: "closing q (takeWhile (lit_cp q) s') (dropWhile (lit_cp q) s') = Some (q, lit, rest)"
    unfolding after_ident_eq quoted_eq
    by (auto split: list.splits if_splits simp: closing_def)
  from c obtain cb where e: "dropWhile (lit_cp q) s' = q # cb # rest"
    and l: "lit = takeWhile (lit_cp q) s'" and cb: "is_close cb"
    by (auto simp: closing_def split: list.splits if_splits)
  have "s' = lit @ q # cb # rest"
    using takeWhile_dropWhile_id[of "lit_cp q" s'] e l by simp
  then have "s = ?ws @ [ob, q] @ lit @ [q, cb] @ rest"
    using takeWhile_dropWhile_id[of is_space s] d by simp
  moreover have "list_all is_space ?ws"
    by (simp add: list_all_iff) (meson set_takeWhileD)
  moreover have "list_all (lit_cp q) lit"
    unfolding l by (simp add: list_all_iff) (meson set_takeWhileD)
  ultimately show ?thesis using o cb by blast
qed

lemma after_ident_complete:
  assumes "list_all is_space ws" "is_open ob" "is_quote q" "is_close cb" "list_all (lit_cp q) lit"
  shows "after_ident (ws @ [ob, q] @ lit @ [q, cb] @ rest) = Some (q, lit, rest)"
proof -
  have nsp: "\<not> is_space ob"
    using assms(2) by (auto simp: is_open_def is_space_def)
  have t: "takeWhile is_space (ws @ ob # q # lit @ q # cb # rest) = ws"
    using assms(1) nsp by (simp add: list_all_iff takeWhile_append2)
  have d: "dropWhile is_space (ws @ ob # q # lit @ q # cb # rest) = ob # q # lit @ q # cb # rest"
    using assms(1) nsp by (simp add: list_all_iff dropWhile_append2)
  have nl: "\<not> lit_cp q q" by (simp add: lit_cp_def)
  have t': "takeWhile (lit_cp q) (lit @ q # cb # rest) = lit"
    using assms(5) nl by (simp add: list_all_iff takeWhile_append2)
  have d': "dropWhile (lit_cp q) (lit @ q # cb # rest) = q # cb # rest"
    using assms(5) nl by (simp add: list_all_iff dropWhile_append2)
  show ?thesis
    using assms(2,3,4) by (simp add: after_ident_eq quoted_eq t d t' d' closing_def)
qed

lemma alternation_Some:
  assumes "alternation js s = Some (i, q, lit, rest)"
  shows "i \<in> set js \<and> prefix i s \<and> after_ident (drop (length i) s) = Some (q, lit, rest)"
  using assms by (induction js) (auto split: if_splits option.splits)

lemma alternation_None:
  assumes "alternation js s = None" "i \<in> set js" "prefix i s"
  shows "after_ident (drop (length i) s) = None"
  using assms by (induction js) (auto split: if_splits option.splits)

lemma after_ident_shorter: "after_ident s = Some (q, lit, rest) \<Longrightarrow> length rest < length s"
  by (drule after_ident_Some) auto

lemma match_at_shorter:
  "match_at identifiers s = Some (i, q, lit, rest) \<Longrightarrow> length rest < length s"
  unfolding match_at_def
  by (drule alternation_Some) (auto dest!: after_ident_shorter)


section \<open>\<open>re.findall\<close>\<close>

text \<open>
  \<open>re.findall(pattern, content)\<close>: the pattern is tried at the start of the text; after
  a match the search goes on behind it, otherwise one code point further on. The pattern
  has three groups, so each match is reported as the tuple of its groups: identifier,
  quote and literal. A match of this pattern has at least four code points, so the
  rule of \<open>findall\<close> for empty matches does not apply.
\<close>

function findall :: "pystr list \<Rightarrow> pystr \<Rightarrow> (pystr \<times> codepoint \<times> pystr) list" where
  "findall identifiers s =
     (case match_at identifiers s of
        Some (i, q, lit, rest) \<Rightarrow> (i, q, lit) # findall identifiers rest
      | None \<Rightarrow> (case s of [] \<Rightarrow> [] | c # cs \<Rightarrow> findall identifiers cs))"
  by pat_completeness auto
termination
  by (relation "measure (\<lambda>(identifiers, s). length s)") (auto dest: match_at_shorter)

declare findall.simps [simp del]

lemma findall_skip:
  "match_at identifiers (c # cs) = None \<Longrightarrow> findall identifiers (c # cs) = findall identifiers cs"
  by (simp add: findall.simps)

lemma findall_match:
  "match_at identifiers s = Some (i, q, lit, rest) \<Longrightarrow>
   findall identifiers s = (i, q, lit) # findall identifiers rest"
  by (simp add: findall.simps)

section \<open>\<open>extract_localization_strings\<close>\<close>

text \<open>
  The configured encoding: its name, and the texts that its encoder accepts. A write
  of a text that the encoder does not accept raises \<open>UnicodeEncodeError\<close>.
\<close>

record codec =
  codec_name :: pystr
  can_encode :: "pystr \<Rightarrow> bool"

text \<open>
  What opening and reading a file in text mode with the configured encoding gives: the
  decoded text as \<open>read\<close> returns it (line ends already translated to the line feed);
  \<open>UnicodeDecodeError\<close>; a \<open>UnicodeError\<close> that is no \<open>UnicodeDecodeError\<close>, which the
  decoder of \<open>utf-16\<close> raises for a file without a byte order mark; or another error
  (\<open>OSError\<close> and the like). The function catches \<open>UnicodeDecodeError\<close> only.
\<close>

datatype read_outcome = Decoded pystr | UnicodeDecodeError | UnicodeError | OtherError

text \<open>
  The errors that end a run: one that \<open>extract_localization_strings\<close> does not catch,
  raised before the target file is opened, and the \<open>UnicodeEncodeError\<close> of a write,
  with the text that the target file is left with when it is closed.
\<close>

datatype error = Uncaught | UnicodeEncodeError pystr

text \<open>
  A path as \<open>rglob\<close> yields it: its parts, its string, the string of the path relative
  to the source directory, and what reading it gives.
\<close>

record lua_file =
  parts :: "pystr list"
  path_str :: pystr
  relative_path :: pystr
  contents :: read_outcome

text \<open>\<open>f'{match[0]}["{match[2]}"]'\<close>\<close>

definition composite_key :: "pystr \<Rightarrow> pystr \<Rightarrow> pystr" where
  "composite_key ident lit = ident @ [91, 34] @ lit @ [34, 93]"

text \<open>
  A \<open>dict\<close> keeps its keys in the order of their first insertion, and an assignment to
  a key it has already replaces the value where the key stands: an association list
  with \<open>AList.update\<close>. The loop over the matches:
\<close>

fun store_matches ::
  "(pystr \<times> pystr) list \<Rightarrow> (pystr \<times> codepoint \<times> pystr) list \<Rightarrow> (pystr \<times> pystr) list" where
  "store_matches strings [] = strings"
| "store_matches strings ((i, q, lit) # matches) =
     store_matches (AList.update (composite_key i lit) lit strings) matches"

definition decode_message :: "pystr \<Rightarrow> pystr \<Rightarrow> pystr" where
  "decode_message file_path encoding =
     str ''Error: Unable to decode '' @ file_path @ str '' with '' @ encoding @ str '' encoding.''"

text \<open>The result: the dictionary and the lines printed, or the error that was not caught.\<close>

definition extract_localization_strings ::
  "lua_file \<Rightarrow> pystr list \<Rightarrow> codec \<Rightarrow> error + ((pystr \<times> pystr) list \<times> pystr list)" where
  "extract_localization_strings file identifiers encoding =
     (case contents file of
        Decoded content \<Rightarrow> Inr (store_matches [] (findall identifiers content), [])
      | UnicodeDecodeError \<Rightarrow>
          Inr ([], [decode_message (path_str file) (codec_name encoding)])
      | UnicodeError \<Rightarrow> Inl Uncaught
      | OtherError \<Rightarrow> Inl Uncaught)"

section \<open>\<open>process_directory\<close>\<close>

definition get_default_excluded_dirs :: "pystr set" where
  "get_default_excluded_dirs =
     {str ''language'', str ''lang'', str ''local'', str ''locales'', str ''locale'',
      str ''locals'', str ''dict'', str ''lib'', str ''libs''}"

text \<open>\<open>any(excluded.lower() in lua_file.parts for excluded in excluded_dirs)\<close>\<close>

definition is_excluded :: "(pystr \<Rightarrow> pystr) \<Rightarrow> pystr set \<Rightarrow> lua_file \<Rightarrow> bool" where
  "is_excluded unicode_lower excluded_dirs file \<longleftrightarrow>
     (\<exists>excluded\<in>excluded_dirs. str_lower unicode_lower excluded \<in> set (parts file))"

record walk_state =
  all_strings :: "(pystr \<times> (pystr \<times> pystr) list) list"
  file_count :: nat
  console :: "pystr list"

text \<open>
  The loop over the paths that \<open>source_dir.rglob("*.lua")\<close> yields, in the order in which
  it yields them. An error that \<open>extract_localization_strings\<close> does not catch ends the run.
\<close>

fun walk ::
  "(pystr \<Rightarrow> pystr) \<Rightarrow> pystr set \<Rightarrow> pystr list \<Rightarrow> codec \<Rightarrow> lua_file list \<Rightarrow> walk_state \<Rightarrow>
   error + walk_state" where
  "walk unicode_lower excluded_dirs identifiers encoding [] st = Inr st"
| "walk unicode_lower excluded_dirs identifiers encoding (f # fs) st =
     (if is_excluded unicode_lower excluded_dirs f
      then walk unicode_lower excluded_dirs identifiers encoding fs st
      else
        (case extract_localization_strings f identifiers encoding of
           Inl e \<Rightarrow> Inl e
         | Inr (strings, printed) \<Rightarrow>
             walk unicode_lower excluded_dirs identifiers encoding fs
               \<lparr>all_strings =
                  (if strings \<noteq> [] then AList.update (relative_path f) strings (all_strings st)
                   else all_strings st),
                file_count = file_count st + 1,
                console = console st @ [str ''Processing: '' @ relative_path f] @ printed\<rparr>))"

text \<open>
  \<open>target_file.open("w", encoding=encoding)\<close> empties the file whatever it held. A
  \<open>write\<close> encodes its text and appends it; when the encoder does not accept the text
  the write raises \<open>UnicodeEncodeError\<close>, the \<open>with\<close> statement closes the file, and the
  file keeps what the writes before had appended. The contents are given as text: the
  bytes of the encoding and the line separator of the platform are not part of the model.
\<close>

definition open_w :: "pystr \<Rightarrow> pystr" where
  "open_w old_contents = []"

definition file_write :: "codec \<Rightarrow> pystr \<Rightarrow> pystr \<Rightarrow> error + pystr" where
  "file_write encoding out_file s =
     (if can_encode encoding s then Inr (out_file @ s) else Inl (UnicodeEncodeError out_file))"

text \<open>\<open>f'{key} = "{value}"\n'\<close>, the line of an entry, and the loop over the entries of a file.\<close>

definition entry_line :: "pystr \<times> pystr \<Rightarrow> pystr" where
  "entry_line kv = fst kv @ str '' = '' @ [34] @ snd kv @ [34, 10]"

fun write_entries :: "codec \<Rightarrow> pystr \<Rightarrow> (pystr \<times> pystr) list \<Rightarrow> error + pystr" where
  "write_entries encoding out_file [] = Inr out_file"
| "write_entries encoding out_file (kv # kvs) =
     (case file_write encoding out_file (entry_line kv) of
        Inl e \<Rightarrow> Inl e
      | Inr out_file' \<Rightarrow> write_entries encoding out_file' kvs)"

text \<open>
  The loop over \<open>all_strings.items()\<close>: for each file the comment line, the lines of its
  entries, and an empty line.
\<close>

fun write_blocks ::
  "codec \<Rightarrow> pystr \<Rightarrow> (pystr \<times> (pystr \<times> pystr) list) list \<Rightarrow> error + pystr" where
  "write_blocks encoding out_file [] = Inr out_file"
| "write_blocks encoding out_file ((file_path, strings) # blocks) =
     (case file_write encoding out_file (str ''--'' @ file_path @ [10]) of
        Inl e \<Rightarrow> Inl e
      | Inr out1 \<Rightarrow>
          (case write_entries encoding out1 strings of
             Inl e \<Rightarrow> Inl e
           | Inr out2 \<Rightarrow>
               (case file_write encoding out2 [10] of
                  Inl e \<Rightarrow> Inl e
                | Inr out3 \<Rightarrow> write_blocks encoding out3 blocks)))"

record run_result =
  target :: pystr
  processed :: nat
  printed :: "pystr list"

text \<open>
  \<open>files\<close> are the paths that \<open>source_dir.rglob("*.lua")\<close> yields, and \<open>old_target\<close> is
  what the target file holds before the run. The two lines printed at the end (the
  count with the elapsed time, the target path) are not in \<open>printed\<close>: the count is the
  field \<open>processed\<close>. A run that raises prints neither.
\<close>

definition process_directory ::
  "(pystr \<Rightarrow> pystr) \<Rightarrow> lua_file list \<Rightarrow> pystr \<Rightarrow> pystr set \<Rightarrow> pystr list \<Rightarrow> codec \<Rightarrow>
   error + run_result" where
  "process_directory unicode_lower files old_target excluded_dirs identifiers encoding =
     (case walk unicode_lower excluded_dirs identifiers encoding files
             \<lparr>all_strings = [], file_count = 0, console = []\<rparr> of
        Inl e \<Rightarrow> Inl e
      | Inr st \<Rightarrow>
          (case write_blocks encoding (open_w old_target) (all_strings st) of
             Inl e \<Rightarrow> Inl e
           | Inr out_file \<Rightarrow>
               Inr \<lparr>target = out_file,
                    processed = file_count st,
                    printed = console st\<rparr>))"

section \<open>\<open>main\<close>\<close>

text \<open>
  \<open>args.identifiers.split(",")\<close> for the default of the argument, \<open>"L,AL,C"\<close>. The
  excluded names of a run are \<open>get_default_excluded_dirs\<close> and the names given with
  \<open>--exclude\<close>.
\<close>

definition ids_default :: "pystr list" where
  "ids_default = str_split 44 (str ''L,AL,C'')"

definition excluded_dirs_of :: "pystr list \<Rightarrow> pystr set" where
  "excluded_dirs_of exclude = get_default_excluded_dirs \<union> set exclude"

section \<open>Notions for the statements\<close>

text \<open>The elements of a list in the order of their first occurrence, each once.\<close>

definition first_seen :: "'a list \<Rightarrow> 'a list" where
  "first_seen xs = rev (remdups (rev xs))"

text \<open>The key and the dictionary entry that a match of \<open>findall\<close> gives.\<close>

definition key_of :: "pystr \<times> codepoint \<times> pystr \<Rightarrow> pystr" where
  "key_of m = composite_key (fst m) (snd (snd m))"

definition entry_of :: "pystr \<times> codepoint \<times> pystr \<Rightarrow> pystr \<times> pystr" where
  "entry_of m = (key_of m, snd (snd m))"

text \<open>
  The dictionary of a file, and the files that get a block: those that are not excluded
  and have a string.
\<close>

definition file_strings :: "pystr list \<Rightarrow> lua_file \<Rightarrow> (pystr \<times> pystr) list" where
  "file_strings identifiers f =
     (case contents f of
        Decoded content \<Rightarrow> store_matches [] (findall identifiers content)
      | _ \<Rightarrow> [])"

definition recorded :: "(pystr \<Rightarrow> pystr) \<Rightarrow> pystr set \<Rightarrow> pystr list \<Rightarrow> lua_file \<Rightarrow> bool" where
  "recorded unicode_lower excluded_dirs identifiers f \<longleftrightarrow>
     \<not> is_excluded unicode_lower excluded_dirs f \<and> file_strings identifiers f \<noteq> []"

text \<open>
  The text of a block, and a block whose writes the encoder of the configured encoding
  accepts, each of them.
\<close>

definition block :: "pystr \<times> (pystr \<times> pystr) list \<Rightarrow> pystr" where
  "block fb = str ''--'' @ fst fb @ [10] @ concat (map entry_line (snd fb)) @ [10]"

definition encodable_block :: "codec \<Rightarrow> pystr \<times> (pystr \<times> pystr) list \<Rightarrow> bool" where
  "encodable_block encoding fb \<longleftrightarrow>
     can_encode encoding (str ''--'' @ fst fb @ [10]) \<and>
     list_all (\<lambda>kv. can_encode encoding (entry_line kv)) (snd fb) \<and>
     can_encode encoding [10]"


text \<open>
  An occurrence in the words of the specification: one of the identifier tokens, white
  space \<open>ws\<close>, an opening bracket \<open>ob\<close>, a quote \<open>q\<close>, a literal \<open>lit\<close> without that
  quote, the quote again, and a closing bracket \<open>cb\<close>, of either kind.
\<close>

definition spec_occurrence ::
  "pystr list \<Rightarrow> pystr \<Rightarrow> pystr \<Rightarrow> codepoint \<Rightarrow> codepoint \<Rightarrow> pystr \<Rightarrow> codepoint \<Rightarrow> bool" where
  "spec_occurrence identifiers i ws ob q lit cb \<longleftrightarrow>
     i \<in> set identifiers \<and> list_all is_space ws \<and> is_open ob \<and> is_quote q \<and>
     q \<notin> set lit \<and> is_close cb"

text \<open>The same with a literal that has no line feed either.\<close>

definition occurrence ::
  "pystr list \<Rightarrow> pystr \<Rightarrow> pystr \<Rightarrow> codepoint \<Rightarrow> codepoint \<Rightarrow> pystr \<Rightarrow> codepoint \<Rightarrow> bool" where
  "occurrence identifiers i ws ob q lit cb \<longleftrightarrow>
     spec_occurrence identifiers i ws ob q lit cb \<and> 10 \<notin> set lit"

definition occurrence_text ::
  "pystr \<Rightarrow> pystr \<Rightarrow> codepoint \<Rightarrow> codepoint \<Rightarrow> pystr \<Rightarrow> codepoint \<Rightarrow> pystr" where
  "occurrence_text i ws ob q lit cb = i @ ws @ [ob, q] @ lit @ [q, cb]"

text \<open>
  A scan from left to right with matches that do not overlap: at the end of the text
  there is nothing more; where no occurrence starts, the scan moves on by one code
  point; where one starts, it is a match and the scan goes on behind it.
\<close>

inductive scanned :: "pystr list \<Rightarrow> pystr \<Rightarrow> (pystr \<times> codepoint \<times> pystr) list \<Rightarrow> bool"
  for identifiers :: "pystr list" where
  scanned_end: "scanned identifiers [] []"
| scanned_skip:
    "\<forall>i ws ob q lit cb r. occurrence identifiers i ws ob q lit cb \<longrightarrow>
        c # cs \<noteq> occurrence_text i ws ob q lit cb @ r \<Longrightarrow>
     scanned identifiers cs ms \<Longrightarrow> scanned identifiers (c # cs) ms"
| scanned_match:
    "occurrence identifiers i ws ob q lit cb \<Longrightarrow> scanned identifiers r ms \<Longrightarrow>
     scanned identifiers (occurrence_text i ws ob q lit cb @ r) ((i, q, lit) # ms)"

section \<open>Example inputs\<close>

text \<open>
  The encodings \<open>utf-8\<close>, \<open>utf-16\<close> and \<open>ascii\<close>: the first two encode every code point
  but the surrogates, the third the code points below 128.
\<close>

definition utf8 :: codec where
  "utf8 = \<lparr>codec_name = str ''utf-8'',
            can_encode = list_all (\<lambda>c. (c < 55296 \<or> 57343 < c) \<and> c \<le> 1114111)\<rparr>"

definition utf16 :: codec where
  "utf16 = \<lparr>codec_name = str ''utf-16'',
             can_encode = list_all (\<lambda>c. (c < 55296 \<or> 57343 < c) \<and> c \<le> 1114111)\<rparr>"

definition ascii :: codec where
  "ascii = \<lparr>codec_name = str ''ascii'', can_encode = list_all (\<lambda>c. c < 128)\<rparr>"

text \<open>
  A source tree \<open>/addon\<close>: a file with the two occurrences of the specification, a file
  that raises \<open>UnicodeDecodeError\<close>, a file without occurrences, a file under the
  excluded directory \<open>libs\<close>, a file with repeated keys, a file under a directory
  \<open>Locale\<close>, the target file of an earlier run under the default target directory
  \<open>Dict\<close>, two files where an identifier ends a longer name, a file in \<open>utf-16\<close> without a
  byte order mark, and a file whose name has the letter e with an acute accent (233).
\<close>

definition core_lua :: lua_file where
  \<open>core_lua =
     \<lparr>parts = [str ''/'', str ''addon'', str ''core.lua''],
      path_str = str ''/addon/core.lua'',
      relative_path = str ''core.lua'',
      contents = Decoded (str ''x = L["Hello"]'' @ [10] @ str ''y = AL('World')'' @ [10])\<rparr>\<close>

definition broken_lua :: lua_file where
  \<open>broken_lua =
     \<lparr>parts = [str ''/'', str ''addon'', str ''broken.lua''],
      path_str = str ''/addon/broken.lua'',
      relative_path = str ''broken.lua'',
      contents = UnicodeDecodeError\<rparr>\<close>

definition plain_lua :: lua_file where
  \<open>plain_lua =
     \<lparr>parts = [str ''/'', str ''addon'', str ''ui'', str ''plain.lua''],
      path_str = str ''/addon/ui/plain.lua'',
      relative_path = str ''ui/plain.lua'',
      contents = Decoded (str ''print(1)'' @ [10])\<rparr>\<close>

definition libs_lua :: lua_file where
  \<open>libs_lua =
     \<lparr>parts = [str ''/'', str ''addon'', str ''libs'', str ''ace.lua''],
      path_str = str ''/addon/libs/ace.lua'',
      relative_path = str ''libs/ace.lua'',
      contents = Decoded (str ''L["Lib"]'')\<rparr>\<close>

definition dup_lua :: lua_file where
  \<open>dup_lua =
     \<lparr>parts = [str ''/'', str ''addon'', str ''dup.lua''],
      path_str = str ''/addon/dup.lua'',
      relative_path = str ''dup.lua'',
      contents = Decoded (str ''L["a"] L('a') L["b"] L["a"]'')\<rparr>\<close>

definition locale_lua :: lua_file where
  \<open>locale_lua =
     \<lparr>parts = [str ''/'', str ''addon'', str ''Locale'', str ''strings.lua''],
      path_str = str ''/addon/Locale/strings.lua'',
      relative_path = str ''Locale/strings.lua'',
      contents = Decoded (str ''L["Hello"] = "Hallo"'' @ [10])\<rparr>\<close>

definition target_lua :: lua_file where
  \<open>target_lua =
     \<lparr>parts = [str ''/'', str ''addon'', str ''Dict'', str ''localization_strings.lua''],
      path_str = str ''/addon/Dict/localization_strings.lua'',
      relative_path = str ''Dict/localization_strings.lua'',
      contents = Decoded (str ''--core.lua'' @ [10] @ str ''L["Hello"] = "Hello"'' @ [10, 10])\<rparr>\<close>

definition al_lua :: lua_file where
  \<open>al_lua =
     \<lparr>parts = [str ''/'', str ''addon'', str ''al.lua''],
      path_str = str ''/addon/al.lua'',
      relative_path = str ''al.lua'',
      contents = Decoded (str ''AL["x"]'')\<rparr>\<close>

definition spaced_lua :: lua_file where
  \<open>spaced_lua =
     \<lparr>parts = [str ''/'', str ''addon'', str ''spaced.lua''],
      path_str = str ''/addon/spaced.lua'',
      relative_path = str ''spaced.lua'',
      contents = Decoded (str ''L["a"] x = MyL["x"]'')\<rparr>\<close>


definition cafe_lua :: lua_file where
  \<open>cafe_lua =
     \<lparr>parts = [str ''/'', str ''addon'', str ''caf'' @ [233] @ str ''.lua''],
      path_str = str ''/addon/caf'' @ [233] @ str ''.lua'',
      relative_path = str ''caf'' @ [233] @ str ''.lua'',
      contents = Decoded (str ''L["Hello"]'')\<rparr>\<close>

text \<open>
  With the default arguments the target file is \<open>Dict/localization_strings.lua\<close> under
  the source directory, so a later run finds it in the walk, holding what the run
  before has written.
\<close>

definition dict_lua :: "pystr \<Rightarrow> lua_file" where
  \<open>dict_lua written =
     \<lparr>parts = [str ''/'', str ''addon'', str ''Dict'', str ''localization_strings.lua''],
      path_str = str ''/addon/Dict/localization_strings.lua'',
      relative_path = str ''Dict/localization_strings.lua'',
      contents = Decoded written\<rparr>\<close>

section \<open>Facts\<close>

subsection \<open>The matcher\<close>

lemma match_at_groups:
  assumes "match_at identifiers s = Some (i, q, lit, rest)"
  shows "i \<in> set (alternatives identifiers) \<and>
         (\<exists>ws ob cb. list_all is_space ws \<and> is_open ob \<and> is_quote q \<and> is_close cb \<and>
            list_all (lit_cp q) lit \<and> s = i @ ws @ [ob, q] @ lit @ [q, cb] @ rest)"
proof -
  from assms have a: "i \<in> set (alternatives identifiers)" and p: "prefix i s"
    and t: "after_ident (drop (length i) s) = Some (q, lit, rest)"
    unfolding match_at_def by (auto dest: alternation_Some)
  from p have s: "s = i @ drop (length i) s"
    by (metis append_eq_conv_conj prefixE)
  from after_ident_Some[OF t] obtain ws ob cb where
    "list_all is_space ws" "is_open ob" "is_quote q" "is_close cb" "list_all (lit_cp q) lit"
    "drop (length i) s = ws @ [ob, q] @ lit @ [q, cb] @ rest"
    by blast
  with a s show ?thesis by metis
qed

lemma findall_groups:
  "(i, q, lit) \<in> set (findall identifiers s) \<Longrightarrow>
   i \<in> set (alternatives identifiers) \<and> is_quote q \<and> list_all (lit_cp q) lit"
proof (induction identifiers s rule: findall.induct)
  case (1 identifiers s)
  show ?case
  proof (cases "match_at identifiers s")
    case None
    with 1 show ?thesis by (cases s) (auto simp: findall.simps)
  next
    case (Some m)
    obtain i' q' lit' rest where m: "m = (i', q', lit', rest)" by (cases m) auto
    from 1(3) Some m have "(i, q, lit) = (i', q', lit') \<or> (i, q, lit) \<in> set (findall identifiers rest)"
      by (simp add: findall.simps)
    then show ?thesis
    proof
      assume "(i, q, lit) = (i', q', lit')"
      with match_at_groups[of identifiers s i' q' lit' rest] Some m show ?thesis by auto
    next
      assume "(i, q, lit) \<in> set (findall identifiers rest)"
      with 1(2) Some m show ?thesis by auto
    qed
  qed
qed

lemma lit_cp_no_newline: "list_all (lit_cp q) lit \<Longrightarrow> 10 \<notin> set lit \<and> q \<notin> set lit"
  by (auto simp: list_all_iff lit_cp_def)

lemma lit_cp_iff: "list_all (lit_cp q) lit \<longleftrightarrow> q \<notin> set lit \<and> 10 \<notin> set lit"
  by (auto simp: list_all_iff lit_cp_def)

lemma alternatives_nonempty: "identifiers \<noteq> [] \<Longrightarrow> alternatives identifiers = identifiers"
  by (simp add: alternatives_def)

lemma match_at_occurrence:
  assumes "identifiers \<noteq> []" "match_at identifiers s = Some (i, q, lit, rest)"
  shows "\<exists>ws ob cb. occurrence identifiers i ws ob q lit cb \<and>
           s = occurrence_text i ws ob q lit cb @ rest"
proof -
  from match_at_groups[OF assms(2)] obtain ws ob cb where
    "i \<in> set identifiers" "list_all is_space ws" "is_open ob" "is_quote q" "is_close cb"
    "list_all (lit_cp q) lit" "s = i @ ws @ [ob, q] @ lit @ [q, cb] @ rest"
    using alternatives_nonempty[OF assms(1)] by auto
  then have "occurrence identifiers i ws ob q lit cb \<and> s = occurrence_text i ws ob q lit cb @ rest"
    by (simp add: occurrence_def spec_occurrence_def occurrence_text_def lit_cp_iff)
  then show ?thesis by blast
qed

lemma occurrence_match_at:
  assumes "identifiers \<noteq> []" "occurrence identifiers i ws ob q lit cb"
  shows "match_at identifiers (occurrence_text i ws ob q lit cb @ r) \<noteq> None"
proof
  assume n: "match_at identifiers (occurrence_text i ws ob q lit cb @ r) = None"
  let ?s = "occurrence_text i ws ob q lit cb @ r"
  from assms(2) have o: "i \<in> set identifiers" "list_all is_space ws" "is_open ob" "is_quote q"
    "is_close cb" "list_all (lit_cp q) lit"
    by (simp_all add: occurrence_def spec_occurrence_def lit_cp_iff)
  have s: "?s = i @ (ws @ [ob, q] @ lit @ [q, cb] @ r)"
    by (simp add: occurrence_text_def)
  have p: "prefix i ?s" unfolding s by simp
  have d: "drop (length i) ?s = ws @ [ob, q] @ lit @ [q, cb] @ r" unfolding s by simp
  from n o(1) have "after_ident (drop (length i) ?s) = None"
    unfolding match_at_def alternatives_nonempty[OF assms(1)]
    using alternation_None[OF _ _ p] by blast
  then show False
    unfolding d using after_ident_complete[OF o(2,3,4,5,6), of r] by simp
qed

lemma alternation_None_iff:
  "alternation js s = None \<longleftrightarrow>
     (\<forall>j \<in> set js. prefix j s \<longrightarrow> after_ident (drop (length j) s) = None)"
  by (induction js) (auto split: option.splits)

lemma alternation_append:
  "alternation (xs @ ys) s =
     (case alternation xs s of Some r \<Rightarrow> Some r | None \<Rightarrow> alternation ys s)"
  by (induction xs) (auto split: option.splits)

lemma occurrence_after_ident:
  assumes "occurrence identifiers j ws ob q lit cb"
  shows "j \<in> set identifiers \<and>
         prefix j (occurrence_text j ws ob q lit cb @ r) \<and>
         after_ident (drop (length j) (occurrence_text j ws ob q lit cb @ r)) = Some (q, lit, r)"
proof -
  from assms have o: "j \<in> set identifiers" "list_all is_space ws" "is_open ob" "is_quote q"
    "is_close cb" "list_all (lit_cp q) lit"
    by (simp_all add: occurrence_def spec_occurrence_def lit_cp_iff)
  have s: "occurrence_text j ws ob q lit cb @ r = j @ (ws @ [ob, q] @ lit @ [q, cb] @ r)"
    by (simp add: occurrence_text_def)
  have "after_ident (drop (length j) (occurrence_text j ws ob q lit cb @ r)) = Some (q, lit, r)"
    unfolding s using after_ident_complete[OF o(2,3,4,5,6), of r] by simp
  moreover have "prefix j (occurrence_text j ws ob q lit cb @ r)"
    unfolding s by simp
  ultimately show ?thesis using o(1) by blast
qed

lemma after_ident_occurrence:
  assumes "j \<in> set identifiers" "prefix j s"
    "after_ident (drop (length j) s) = Some (q, lit, r)"
  shows "\<exists>ws ob cb. occurrence identifiers j ws ob q lit cb \<and>
           s = occurrence_text j ws ob q lit cb @ r"
proof -
  from assms(2) have s: "s = j @ drop (length j) s"
    by (metis append_eq_conv_conj prefixE)
  from after_ident_Some[OF assms(3)] obtain ws ob cb where
    o: "list_all is_space ws" "is_open ob" "is_quote q" "is_close cb" "list_all (lit_cp q) lit"
    and d: "drop (length j) s = ws @ [ob, q] @ lit @ [q, cb] @ r"
    by blast
  have "s = occurrence_text j ws ob q lit cb @ r"
    using s d by (simp add: occurrence_text_def)
  moreover have "occurrence identifiers j ws ob q lit cb"
    using assms(1) o by (simp add: occurrence_def spec_occurrence_def lit_cp_iff)
  ultimately show ?thesis by blast
qed

lemma match_at_first_token:
  assumes o: "occurrence identifiers i ws ob q lit cb"
    and n: "\<forall>j \<in> set (takeWhile (\<lambda>j. j \<noteq> i) identifiers).
        prefix j (occurrence_text i ws ob q lit cb @ post) \<longrightarrow>
        after_ident (drop (length j) (occurrence_text i ws ob q lit cb @ post)) = None"
  shows "match_at identifiers (occurrence_text i ws ob q lit cb @ post) = Some (i, q, lit, post)"
proof -
  let ?s = "occurrence_text i ws ob q lit cb @ post"
  let ?xs = "takeWhile (\<lambda>j. j \<noteq> i) identifiers"
  let ?ys = "dropWhile (\<lambda>j. j \<noteq> i) identifiers"
  from occurrence_after_ident[OF o, of post]
  have i: "i \<in> set identifiers" and p: "prefix i ?s"
    and a: "after_ident (drop (length i) ?s) = Some (q, lit, post)"
    by blast+
  from i have ne: "identifiers \<noteq> []" by auto
  from i have "?ys \<noteq> []" by (simp add: dropWhile_eq_Nil_conv)
  then obtain y ys where ys: "?ys = y # ys" by (cases ?ys) auto
  then have "y = i" using hd_dropWhile[of "\<lambda>j. j \<noteq> i" identifiers] by fastforce
  with ys have ys': "?ys = i # ys" by simp
  have split: "identifiers = ?xs @ i # ys"
    using takeWhile_dropWhile_id[of "\<lambda>j. j \<noteq> i" identifiers] ys' by simp
  have x: "alternation ?xs ?s = None"
    unfolding alternation_None_iff by (rule n)
  have y: "alternation (i # ys) ?s = Some (i, q, lit, post)"
    using p a by simp
  have "alternation (?xs @ i # ys) ?s = Some (i, q, lit, post)"
    unfolding alternation_append x y by simp
  then have "alternation identifiers ?s = Some (i, q, lit, post)"
    using split by simp
  then show ?thesis
    by (simp add: match_at_def alternatives_nonempty[OF ne])
qed


lemma findall_reaches:
  assumes ne: "identifiers \<noteq> []"
  shows "\<forall>k < length before. \<forall>j q lit rest.
           match_at identifiers (drop k (before @ t)) = Some (j, q, lit, rest) \<longrightarrow>
           length t \<le> length rest \<Longrightarrow>
         \<exists>ms. findall identifiers (before @ t) = ms @ findall identifiers t"
proof (induction "length before" arbitrary: before rule: less_induct)
  case less
  note H = less.prems
  show ?case
  proof (cases before)
    case Nil
    show ?thesis unfolding Nil by (rule exI[of _ "[]"]) simp
  next
    case (Cons c b)
    show ?thesis
    proof (cases "match_at identifiers (before @ t)")
      case None
      then have f: "findall identifiers (before @ t) = findall identifiers (b @ t)"
        unfolding Cons by (simp add: findall_skip)
      have Hb: "\<forall>k < length b. \<forall>j q lit rest.
           match_at identifiers (drop k (b @ t)) = Some (j, q, lit, rest) \<longrightarrow>
           length t \<le> length rest"
      proof (intro allI impI)
        fix k j q lit rest
        assume k: "k < length b"
          and m: "match_at identifiers (drop k (b @ t)) = Some (j, q, lit, rest)"
        from k have k': "Suc k < length before" unfolding Cons by simp
        have "drop (Suc k) (before @ t) = drop k (b @ t)" unfolding Cons by simp
        with m have "match_at identifiers (drop (Suc k) (before @ t)) = Some (j, q, lit, rest)"
          by simp
        with H k' show "length t \<le> length rest" by blast
      qed
      have "length b < length before" unfolding Cons by simp
      from less.hyps[OF this Hb] obtain ms where
        "findall identifiers (b @ t) = ms @ findall identifiers t"
        by blast
      with f show ?thesis by simp
    next
      case (Some m)
      obtain j q lit rest where m: "m = (j, q, lit, rest)" by (cases m) auto
      from Some m have ma: "match_at identifiers (before @ t) = Some (j, q, lit, rest)"
        by simp
      then have f: "findall identifiers (before @ t) = (j, q, lit) # findall identifiers rest"
        by (rule findall_match)
      have "0 < length before" unfolding Cons by simp
      with H ma have lt: "length t \<le> length rest"
        by (metis drop0)
      from match_at_shorter[OF ma] have sh: "length rest < length (before @ t)" .
      from match_at_groups[OF ma] obtain pre where pre: "before @ t = pre @ rest"
        by (metis append.assoc)
      define n where "n = length pre"
      have "length (before @ t) = length (pre @ rest)" by (simp only: pre)
      then have len: "length before + length t = n + length rest"
        by (simp add: n_def)
      from sh have sh': "length rest < length before + length t" by simp
      from len lt sh' have n: "n \<le> length before" "0 < n" by arith+
      have rest: "rest = drop n before @ t"
      proof -
        have "rest = drop n (before @ t)" unfolding n_def pre by simp
        then show ?thesis using n(1) by simp
      qed
      let ?b = "drop n before"
      have Hb: "\<forall>k < length ?b. \<forall>j q lit rest.
           match_at identifiers (drop k (?b @ t)) = Some (j, q, lit, rest) \<longrightarrow>
           length t \<le> length rest"
      proof (intro allI impI)
        fix k j' q' lit' rest'
        assume k: "k < length ?b"
          and m': "match_at identifiers (drop k (?b @ t)) = Some (j', q', lit', rest')"
        from k have k': "n + k < length before" by simp
        have "drop (n + k) (before @ t) = drop k (?b @ t)"
          using n(1) by (simp add: add.commute)
        with m' have "match_at identifiers (drop (n + k) (before @ t)) = Some (j', q', lit', rest')"
          by simp
        with H k' show "length t \<le> length rest'" by blast
      qed
      have "length ?b < length before" using n by simp
      from less.hyps[OF this Hb] obtain ms where
        "findall identifiers (?b @ t) = ms @ findall identifiers t"
        by blast
      with f rest show ?thesis by simp
    qed
  qed
qed


lemma occurrences_end_by_after_ident:
  assumes "list_all (\<lambda>k. list_all (\<lambda>j. prefix j (drop k (before @ t)) \<longrightarrow>
               (case after_ident (drop (length j) (drop k (before @ t))) of
                  None \<Rightarrow> True
                | Some (q, lit, r) \<Rightarrow> length t \<le> length r)) identifiers)
             [0..<length before]"
  shows "\<forall>k < length before. \<forall>j ws ob q lit cb r.
           occurrence identifiers j ws ob q lit cb \<and>
           drop k (before @ t) = occurrence_text j ws ob q lit cb @ r \<longrightarrow>
           k + length (occurrence_text j ws ob q lit cb) \<le> length before"
proof (intro allI impI)
  fix k j ws ob q lit cb r
  assume k: "k < length before"
    and o: "occurrence identifiers j ws ob q lit cb \<and>
           drop k (before @ t) = occurrence_text j ws ob q lit cb @ r"
  from o have oc: "occurrence identifiers j ws ob q lit cb"
    and d: "drop k (before @ t) = occurrence_text j ws ob q lit cb @ r"
    by blast+
  from occurrence_after_ident[OF oc, of r]
  have j: "j \<in> set identifiers" and p: "prefix j (drop k (before @ t))"
    and a: "after_ident (drop (length j) (drop k (before @ t))) = Some (q, lit, r)"
    unfolding d by blast+
  from k have "k \<in> set [0..<length before]" by simp
  with assms have "list_all (\<lambda>j. prefix j (drop k (before @ t)) \<longrightarrow>
               (case after_ident (drop (length j) (drop k (before @ t))) of
                  None \<Rightarrow> True
                | Some (q, lit, r) \<Rightarrow> length t \<le> length r)) identifiers"
    unfolding list_all_iff by (rule bspec)
  then have "\<forall>j \<in> set identifiers. prefix j (drop k (before @ t)) \<longrightarrow>
               (case after_ident (drop (length j) (drop k (before @ t))) of
                  None \<Rightarrow> True
                | Some (q, lit, r) \<Rightarrow> length t \<le> length r)"
    unfolding list_all_iff .
  from bspec[OF this j] p a have le: "length t \<le> length r" by simp
  have "length (drop k (before @ t)) = length (occurrence_text j ws ob q lit cb @ r)"
    by (simp only: d)
  then have "length before + length t - k = length (occurrence_text j ws ob q lit cb) + length r"
    by simp
  with le k show "k + length (occurrence_text j ws ob q lit cb) \<le> length before"
    by arith
qed

subsection \<open>The dictionary of a file\<close>

lemma store_matches_snoc:
  "store_matches strings (matches @ [(i, q, lit)]) =
     AList.update (composite_key i lit) lit (store_matches strings matches)"
  by (induction strings matches rule: store_matches.induct) auto

lemma first_seen_snoc:
  "first_seen (xs @ [x]) = (if x \<in> set xs then first_seen xs else first_seen xs @ [x])"
  by (simp add: first_seen_def)

lemma set_first_seen: "set (first_seen xs) = set xs"
  by (simp add: first_seen_def)

lemma store_matches_keys:
  "map fst (store_matches [] matches) = first_seen (map key_of matches)"
proof (induction matches rule: rev_induct)
  case Nil
  show ?case by (simp add: first_seen_def)
next
  case (snoc m ms)
  obtain i q lit where m: "m = (i, q, lit)" by (cases m) auto
  have "set (map fst (store_matches [] ms)) = set (map key_of ms)"
    unfolding snoc.IH by (simp add: set_first_seen)
  then show ?case
    using snoc.IH
    by (simp add: m store_matches_snoc update_keys first_seen_snoc key_of_def image_iff)
qed

lemma store_matches_map_of:
  "map_of (store_matches [] matches) = map_of (rev (map entry_of matches))"
proof (induction matches rule: rev_induct)
  case Nil
  show ?case by simp
next
  case (snoc m ms)
  obtain i q lit where m: "m = (i, q, lit)" by (cases m) auto
  show ?case
    by (simp add: m store_matches_snoc update_conv' snoc.IH entry_of_def key_of_def)
qed

lemma store_matches_distinct: "distinct (map fst (store_matches [] matches))"
  by (simp add: store_matches_keys first_seen_def)

lemma store_matches_set:
  "set (store_matches [] matches) \<subseteq> entry_of ` set matches"
proof
  fix kv assume a: "kv \<in> set (store_matches [] matches)"
  obtain k v where kv: "kv = (k, v)" by (cases kv) auto
  from a kv have "map_of (store_matches [] matches) k = Some v"
    using store_matches_distinct by (simp add: map_of_eq_Some_iff)
  then have "map_of (rev (map entry_of matches)) k = Some v"
    by (simp add: store_matches_map_of)
  then have "(k, v) \<in> set (rev (map entry_of matches))"
    by (rule map_of_SomeD)
  with kv show "kv \<in> entry_of ` set matches" by auto
qed

lemma set_update_subset: "set (AList.update k v al) \<subseteq> insert (k, v) (set al)"
  by (induction al) auto

lemma update_new_key: "k \<notin> fst ` set al \<Longrightarrow> AList.update k v al = al @ [(k, v)]"
  by (induction al) auto

lemma extract_Decoded:
  "contents file = Decoded content \<Longrightarrow>
   extract_localization_strings file identifiers encoding =
     Inr (store_matches [] (findall identifiers content), [])"
  by (simp add: extract_localization_strings_def)

lemma extract_Inl:
  "extract_localization_strings f identifiers encoding = Inl e \<longleftrightarrow>
     e = Uncaught \<and> (contents f = UnicodeError \<or> contents f = OtherError)"
  by (auto simp: extract_localization_strings_def split: read_outcome.splits)

lemma extract_file_strings:
  "extract_localization_strings f identifiers encoding = Inr (strings, out) \<Longrightarrow>
   strings = file_strings identifiers f"
  by (auto simp: extract_localization_strings_def file_strings_def split: read_outcome.splits)


subsection \<open>The walk and the target file\<close>

lemma write_entries_Inr:
  "write_entries encoding out_file kvs = Inr t \<longleftrightarrow>
     list_all (\<lambda>kv. can_encode encoding (entry_line kv)) kvs \<and>
     t = out_file @ concat (map entry_line kvs)"
  by (induction kvs arbitrary: out_file) (auto simp: file_write_def)

lemma write_entries_Inl:
  "write_entries encoding out_file kvs = Inl e \<Longrightarrow>
   \<exists>t. e = UnicodeEncodeError t \<and> prefix out_file t \<and>
       prefix t (out_file @ concat (map entry_line kvs))"
proof (induction kvs arbitrary: out_file)
  case Nil
  then show ?case by simp
next
  case (Cons kv kvs)
  show ?case
  proof (cases "can_encode encoding (entry_line kv)")
    case False
    with Cons.prems have "e = UnicodeEncodeError out_file" by (simp add: file_write_def)
    then show ?thesis by simp
  next
    case True
    with Cons.prems have "write_entries encoding (out_file @ entry_line kv) kvs = Inl e"
      by (simp add: file_write_def)
    from Cons.IH[OF this] obtain t where t: "e = UnicodeEncodeError t"
      "prefix (out_file @ entry_line kv) t"
      "prefix t ((out_file @ entry_line kv) @ concat (map entry_line kvs))"
      by blast
    from t(2) have "prefix out_file t" by (rule append_prefixD)
    with t(1,3) show ?thesis by simp
  qed
qed

lemma write_block_cases:
  "write_blocks encoding out_file ((p, strings) # blocks) =
     (if encodable_block encoding (p, strings)
      then write_blocks encoding (out_file @ block (p, strings)) blocks
      else Inl (UnicodeEncodeError
             (if \<not> can_encode encoding (str ''--'' @ p @ [10]) then out_file
              else case write_entries encoding (out_file @ str ''--'' @ p @ [10]) strings of
                     Inl (UnicodeEncodeError t) \<Rightarrow> t
                   | _ \<Rightarrow> out_file @ str ''--'' @ p @ [10] @ concat (map entry_line strings))))"
proof (cases "can_encode encoding (str ''--'' @ p @ [10])")
  case False
  then show ?thesis by (simp add: file_write_def encodable_block_def)
next
  case h: True
  show ?thesis
  proof (cases "write_entries encoding (out_file @ str ''--'' @ p @ [10]) strings")
    case (Inl e)
    from write_entries_Inl[OF Inl] obtain t where "e = UnicodeEncodeError t" by blast
    moreover have "\<not> list_all (\<lambda>kv. can_encode encoding (entry_line kv)) strings"
      using Inl write_entries_Inr[of encoding "out_file @ str ''--'' @ p @ [10]" strings]
      by (metis sum.distinct(1))
    ultimately show ?thesis using h Inl by (simp add: file_write_def encodable_block_def)
  next
    case (Inr out2)
    then have a: "list_all (\<lambda>kv. can_encode encoding (entry_line kv)) strings"
      and o: "out2 = (out_file @ str ''--'' @ p @ [10]) @ concat (map entry_line strings)"
      by (simp_all add: write_entries_Inr)
    show ?thesis using h Inr a o by (simp add: file_write_def encodable_block_def block_def)
  qed
qed

lemma write_blocks_Inr:
  "write_blocks encoding out_file blocks = Inr t \<longleftrightarrow>
     list_all (encodable_block encoding) blocks \<and> t = out_file @ concat (map block blocks)"
proof (induction blocks arbitrary: out_file)
  case Nil
  show ?case by auto
next
  case (Cons b blocks)
  obtain p strings where b: "b = (p, strings)" by (cases b) auto
  show ?case unfolding b write_block_cases using Cons.IH by simp
qed

lemma write_blocks_Inl:
  "write_blocks encoding out_file blocks = Inl e \<Longrightarrow>
   \<exists>t. e = UnicodeEncodeError t \<and> prefix out_file t \<and>
       prefix t (out_file @ concat (map block blocks))"
proof (induction blocks arbitrary: out_file)
  case Nil
  then show ?case by simp
next
  case (Cons b blocks)
  obtain p strings where b: "b = (p, strings)" by (cases b) auto
  show ?case
  proof (cases "encodable_block encoding (p, strings)")
    case True
    from Cons.prems[unfolded b write_block_cases] True
    have "write_blocks encoding (out_file @ block (p, strings)) blocks = Inl e"
      by simp
    from Cons.IH[OF this] obtain t where t: "e = UnicodeEncodeError t"
      "prefix (out_file @ block (p, strings)) t"
      "prefix t ((out_file @ block (p, strings)) @ concat (map block blocks))"
      by blast
    from t(2) have "prefix out_file t" by (rule append_prefixD)
    with t(1,3) b show ?thesis by simp
  next
    case False
    let ?h = "str ''--'' @ p @ [10]"
    show ?thesis
    proof (cases "can_encode encoding ?h")
      case h: False
      with Cons.prems b have "e = UnicodeEncodeError out_file"
        by (simp add: file_write_def)
      then show ?thesis by simp
    next
      case h: True
      show ?thesis
      proof (cases "write_entries encoding (out_file @ ?h) strings")
        case (Inl e')
        with Cons.prems b h have e: "e = e'" by (simp add: file_write_def)
        from write_entries_Inl[OF Inl] obtain t where t: "e' = UnicodeEncodeError t"
          "prefix (out_file @ ?h) t"
          "prefix t ((out_file @ ?h) @ concat (map entry_line strings))"
          by blast
        from t(2) have 1: "prefix out_file t" by (rule append_prefixD)
        have "prefix ((out_file @ ?h) @ concat (map entry_line strings))
            (out_file @ concat (map block (b # blocks)))"
          by (simp add: b block_def)
        with t(3) have "prefix t (out_file @ concat (map block (b # blocks)))"
          by (rule prefix_order.trans)
        with e t(1) 1 show ?thesis by blast
      next
        case (Inr out2)
        then have o: "out2 = (out_file @ ?h) @ concat (map entry_line strings)"
          and a: "list_all (\<lambda>kv. can_encode encoding (entry_line kv)) strings"
          by (simp_all add: write_entries_Inr)
        from False h a have n: "\<not> can_encode encoding [10]"
          by (simp add: encodable_block_def)
        with Cons.prems b h Inr have "e = UnicodeEncodeError out2"
          by (simp add: file_write_def)
        moreover have "prefix out_file out2" unfolding o by simp
        moreover have "prefix out2 (out_file @ concat (map block (b # blocks)))"
          unfolding o by (simp add: b block_def)
        ultimately show ?thesis by blast
      qed
    qed
  qed
qed

lemma block_format:
  \<open>block (p, strings) =
     str ''--'' @ p @ [10] @
     concat (map (\<lambda>(k, v). k @ str '' = "'' @ v @ str ''"'' @ [10]) strings) @ [10]\<close>
proof -
  have \<open>entry_line = (\<lambda>(k, v). k @ str '' = "'' @ v @ str ''"'' @ [10])\<close>
    by (auto simp: entry_line_def str_def fun_eq_iff)
  then show ?thesis by (simp add: block_def)
qed


lemma walk_total:
  "\<forall>f \<in> set fs. is_excluded unicode_lower excluded_dirs f \<or>
      contents f \<noteq> UnicodeError \<and> contents f \<noteq> OtherError \<Longrightarrow>
   \<exists>st'. walk unicode_lower excluded_dirs identifiers encoding fs st = Inr st'"
proof (induction fs arbitrary: st)
  case Nil
  show ?case by simp
next
  case (Cons f fs)
  show ?case
  proof (cases "is_excluded unicode_lower excluded_dirs f")
    case True
    with Cons show ?thesis by simp
  next
    case False
    with Cons.prems have "contents f \<noteq> UnicodeError \<and> contents f \<noteq> OtherError" by simp
    then obtain strings out where
      "extract_localization_strings f identifiers encoding = Inr (strings, out)"
      using extract_Inl[of f identifiers encoding]
      by (cases "extract_localization_strings f identifiers encoding") auto
    with False Cons show ?thesis by simp
  qed
qed





lemma process_directory_Inr:
  "process_directory unicode_lower files old_target excluded_dirs identifiers encoding = Inr r \<longleftrightarrow>
     (\<exists>st. walk unicode_lower excluded_dirs identifiers encoding files
             \<lparr>all_strings = [], file_count = 0, console = []\<rparr> = Inr st \<and>
           list_all (encodable_block encoding) (all_strings st) \<and>
           r = \<lparr>target = concat (map block (all_strings st)), processed = file_count st,
                printed = console st\<rparr>)"
proof (cases "walk unicode_lower excluded_dirs identifiers encoding files
             \<lparr>all_strings = [], file_count = 0, console = []\<rparr>")
  case (Inl e)
  then show ?thesis by (simp add: process_directory_def)
next
  case (Inr st)
  show ?thesis
  proof (cases "write_blocks encoding [] (all_strings st)")
    case (Inl e)
    then have "\<not> list_all (encodable_block encoding) (all_strings st)"
      using write_blocks_Inr[of encoding "[]" "all_strings st"] by (metis sum.distinct(1))
    with Inl Inr show ?thesis by (simp add: process_directory_def open_w_def)
  next
    case w: (Inr t)
    then have "list_all (encodable_block encoding) (all_strings st)"
      "t = concat (map block (all_strings st))"
      by (simp_all add: write_blocks_Inr)
    with w Inr show ?thesis by (auto simp: process_directory_def open_w_def)
  qed
qed




lemma walk_all_strings:
  assumes "walk unicode_lower excluded_dirs identifiers encoding fs st = Inr st'"
    and "distinct (map relative_path fs)"
    and "\<forall>f \<in> set fs. relative_path f \<notin> fst ` set (all_strings st)"
  shows "all_strings st' = all_strings st @
           map (\<lambda>f. (relative_path f, file_strings identifiers f))
             (filter (recorded unicode_lower excluded_dirs identifiers) fs)"
  using assms
proof (induction fs arbitrary: st)
  case Nil
  then show ?case by simp
next
  case (Cons f fs)
  have d: "distinct (map relative_path fs)" using Cons.prems(2) by simp
  show ?case
  proof (cases "is_excluded unicode_lower excluded_dirs f")
    case True
    with Cons.prems(1) have w: "walk unicode_lower excluded_dirs identifiers encoding fs st = Inr st'" by simp
    have "\<forall>g \<in> set fs. relative_path g \<notin> fst ` set (all_strings st)"
      using Cons.prems(3) by simp
    from Cons.IH[OF w d this] True show ?thesis by (simp add: recorded_def)
  next
    case False
    with Cons.prems(1) obtain strings out where
      e: "extract_localization_strings f identifiers encoding = Inr (strings, out)"
      by (auto split: sum.splits)
    have s: "strings = file_strings identifiers f" by (rule extract_file_strings[OF e])
    let ?al = "if strings \<noteq> [] then AList.update (relative_path f) strings (all_strings st)
               else all_strings st"
    let ?st = "\<lparr>all_strings = ?al, file_count = file_count st + 1,
                console = console st @ [str ''Processing: '' @ relative_path f] @ out\<rparr>"
    from Cons.prems(1) False e have w: "walk unicode_lower excluded_dirs identifiers encoding fs ?st = Inr st'"
      by simp
    have new: "relative_path f \<notin> fst ` set (all_strings st)" using Cons.prems(3) by simp
    have al: "?al = all_strings st @
        map (\<lambda>f. (relative_path f, file_strings identifiers f))
          (filter (recorded unicode_lower excluded_dirs identifiers) [f])"
      using False s update_new_key[OF new, of strings] by (simp add: recorded_def)
    have sub: "fst ` set ?al \<subseteq> insert (relative_path f) (fst ` set (all_strings st))"
      unfolding al by auto
    have nf: "relative_path f \<notin> relative_path ` set fs"
      using Cons.prems(2) by simp
    have old: "\<forall>g \<in> set fs. relative_path g \<notin> fst ` set (all_strings st)"
      using Cons.prems(3) by simp
    have "\<forall>g \<in> set fs. relative_path g \<notin> fst ` set ?al"
    proof (intro ballI notI)
      fix g assume g: "g \<in> set fs" and "relative_path g \<in> fst ` set ?al"
      with sub have "relative_path g = relative_path f \<or>
          relative_path g \<in> fst ` set (all_strings st)"
        by blast
      moreover from g have "relative_path g \<in> relative_path ` set fs" by (rule imageI)
      with nf have "relative_path g \<noteq> relative_path f" by metis
      moreover from old g have "relative_path g \<notin> fst ` set (all_strings st)" by (rule bspec)
      ultimately show False by simp
    qed
    then have fresh: "\<forall>g \<in> set fs. relative_path g \<notin> fst ` set (all_strings ?st)"
      by simp
    have "all_strings st' = all_strings ?st @
           map (\<lambda>f. (relative_path f, file_strings identifiers f))
             (filter (recorded unicode_lower excluded_dirs identifiers) fs)"
      by (rule Cons.IH[OF w d fresh])
    also have "all_strings ?st = ?al" by simp
    finally show ?thesis unfolding al by simp
  qed
qed

lemma walk_blocks:
  assumes "walk unicode_lower excluded_dirs identifiers encoding fs st = Inr st'"
    and "\<forall>fb \<in> set (all_strings st). Q fb"
    and "\<And>f. f \<in> set fs \<Longrightarrow> recorded unicode_lower excluded_dirs identifiers f \<Longrightarrow>
           Q (relative_path f, file_strings identifiers f)"
  shows "\<forall>fb \<in> set (all_strings st'). Q fb"
  using assms
proof (induction fs arbitrary: st)
  case Nil
  then show ?case by simp
next
  case (Cons f fs)
  have rest: "Q (relative_path g, file_strings identifiers g)"
    if "g \<in> set fs" "recorded unicode_lower excluded_dirs identifiers g" for g
    using Cons.prems(3)[of g] that by simp
  show ?case
  proof (cases "is_excluded unicode_lower excluded_dirs f")
    case True
    with Cons.prems(1)
    have w: "walk unicode_lower excluded_dirs identifiers encoding fs st = Inr st'" by simp
    show ?thesis by (rule Cons.IH[OF w Cons.prems(2) rest])
  next
    case False
    with Cons.prems(1) obtain strings out where
      e: "extract_localization_strings f identifiers encoding = Inr (strings, out)"
      by (auto split: sum.splits)
    have s: "strings = file_strings identifiers f" by (rule extract_file_strings[OF e])
    let ?al = "if strings \<noteq> [] then AList.update (relative_path f) strings (all_strings st)
               else all_strings st"
    let ?st = "\<lparr>all_strings = ?al, file_count = file_count st + 1,
                console = console st @ [str ''Processing: '' @ relative_path f] @ out\<rparr>"
    from Cons.prems(1) False e
    have w: "walk unicode_lower excluded_dirs identifiers encoding fs ?st = Inr st'"
      by simp
    have "\<forall>fb \<in> set ?al. Q fb"
    proof (cases "strings = []")
      case True
      with Cons.prems(2) show ?thesis by simp
    next
      case ne: False
      with False s have "recorded unicode_lower excluded_dirs identifiers f"
        by (simp add: recorded_def)
      then have "Q (relative_path f, strings)"
        using Cons.prems(3)[of f] s by simp
      with Cons.prems(2) ne set_update_subset[of "relative_path f" strings "all_strings st"]
      show ?thesis by auto
    qed
    then have q: "\<forall>fb \<in> set (all_strings ?st). Q fb" by simp
    show ?thesis by (rule Cons.IH[OF w q rest])
  qed
qed

lemma walk_blocks_recorded:
  assumes "walk unicode_lower excluded_dirs identifiers encoding files
             \<lparr>all_strings = [], file_count = 0, console = []\<rparr> = Inr st"
  shows "\<forall>fb \<in> set (all_strings st). \<exists>f \<in> set files.
           recorded unicode_lower excluded_dirs identifiers f \<and>
           fb = (relative_path f, file_strings identifiers f)"
  by (rule walk_blocks[OF assms]) auto

lemma walk_Inl:
  "walk unicode_lower excluded_dirs identifiers encoding fs st = Inl e \<Longrightarrow> e = Uncaught"
proof (induction fs arbitrary: st)
  case Nil
  then show ?case by simp
next
  case (Cons f fs)
  show ?case
  proof (cases "is_excluded unicode_lower excluded_dirs f")
    case True
    with Cons.prems have "walk unicode_lower excluded_dirs identifiers encoding fs st = Inl e"
      by simp
    then show ?thesis by (rule Cons.IH)
  next
    case False
    show ?thesis
    proof (cases "extract_localization_strings f identifiers encoding")
      case (Inl e')
      with Cons.prems False have "e = e'" by simp
      with Inl show ?thesis by (simp add: extract_Inl)
    next
      case (Inr so)
      obtain strings out where so: "so = (strings, out)" by (cases so) auto
      let ?st = "\<lparr>all_strings =
             (if strings \<noteq> [] then AList.update (relative_path f) strings (all_strings st)
              else all_strings st),
           file_count = file_count st + 1,
           console = console st @ [str ''Processing: '' @ relative_path f] @ out\<rparr>"
      from Cons.prems False Inr so
      have "walk unicode_lower excluded_dirs identifiers encoding fs ?st = Inl e" by simp
      then show ?thesis by (rule Cons.IH)
    qed
  qed
qed

lemma process_directory_encode_error:
  assumes "process_directory unicode_lower files old_target excluded_dirs identifiers encoding =
     Inl (UnicodeEncodeError t)"
  shows "\<exists>st. walk unicode_lower excluded_dirs identifiers encoding files
             \<lparr>all_strings = [], file_count = 0, console = []\<rparr> = Inr st \<and>
           prefix t (concat (map block (all_strings st)))"
proof (cases "walk unicode_lower excluded_dirs identifiers encoding files
             \<lparr>all_strings = [], file_count = 0, console = []\<rparr>")
  case (Inl e)
  with walk_Inl[OF Inl] assms show ?thesis by (simp add: process_directory_def)
next
  case (Inr st)
  with assms have "write_blocks encoding [] (all_strings st) = Inl (UnicodeEncodeError t)"
    by (simp add: process_directory_def open_w_def split: sum.splits)
  from write_blocks_Inl[OF this] have "prefix t (concat (map block (all_strings st)))"
    by simp
  with Inr show ?thesis by simp
qed

lemma serialization_format:
  \<open>concat (map block (map (\<lambda>f. (relative_path f, file_strings identifiers f)) fs)) =
   concat (map (\<lambda>f. str ''--'' @ relative_path f @ [10] @
                      concat (map (\<lambda>(k, v). k @ str '' = "'' @ v @ str ''"'' @ [10])
                                (file_strings identifiers f)) @ [10]) fs)\<close>
  by (simp add: comp_def block_format)

lemma walk_readable:
  "walk unicode_lower excluded_dirs identifiers encoding fs st = Inr st' \<Longrightarrow>
   \<forall>f \<in> set fs. is_excluded unicode_lower excluded_dirs f \<or>
      contents f \<noteq> UnicodeError \<and> contents f \<noteq> OtherError"
proof (induction fs arbitrary: st)
  case Nil
  then show ?case by simp
next
  case (Cons f fs)
  show ?case
  proof (cases "is_excluded unicode_lower excluded_dirs f")
    case True
    with Cons.prems have "walk unicode_lower excluded_dirs identifiers encoding fs st = Inr st'"
      by simp
    from Cons.IH[OF this] True show ?thesis by simp
  next
    case False
    show ?thesis
    proof (cases "extract_localization_strings f identifiers encoding")
      case (Inl e)
      with Cons.prems False show ?thesis by simp
    next
      case (Inr so)
      obtain strings out where so: "so = (strings, out)" by (cases so) auto
      let ?st = "\<lparr>all_strings =
             (if strings \<noteq> [] then AList.update (relative_path f) strings (all_strings st)
              else all_strings st),
           file_count = file_count st + 1,
           console = console st @ [str ''Processing: '' @ relative_path f] @ out\<rparr>"
      from Cons.prems False Inr so
      have "walk unicode_lower excluded_dirs identifiers encoding fs ?st = Inr st'" by simp
      from Cons.IH[OF this]
      have t: "\<forall>f \<in> set fs. is_excluded unicode_lower excluded_dirs f \<or>
          contents f \<noteq> UnicodeError \<and> contents f \<noteq> OtherError" .
      from Inr have "contents f \<noteq> UnicodeError \<and> contents f \<noteq> OtherError"
        by (auto simp: extract_localization_strings_def)
      with t show ?thesis by simp
    qed
  qed
qed

lemma process_directory_blocks:
  assumes d: "distinct (map relative_path files)"
  shows "process_directory unicode_lower files old_target excluded_dirs identifiers encoding = Inr r \<longrightarrow>
     (\<forall>f \<in> set files. is_excluded unicode_lower excluded_dirs f \<or>
        contents f \<noteq> UnicodeError \<and> contents f \<noteq> OtherError) \<and>
     list_all (encodable_block encoding)
       (map (\<lambda>f. (relative_path f, file_strings identifiers f))
          (filter (recorded unicode_lower excluded_dirs identifiers) files)) \<and>
     target r = concat (map block
       (map (\<lambda>f. (relative_path f, file_strings identifiers f))
          (filter (recorded unicode_lower excluded_dirs identifiers) files)))"
proof
  assume "process_directory unicode_lower files old_target excluded_dirs identifiers encoding = Inr r"
  then obtain st where
    w: "walk unicode_lower excluded_dirs identifiers encoding files
          \<lparr>all_strings = [], file_count = 0, console = []\<rparr> = Inr st"
    and e: "list_all (encodable_block encoding) (all_strings st)"
    and t: "target r = concat (map block (all_strings st))"
    by (auto simp: process_directory_Inr)
  have al: "all_strings st =
      map (\<lambda>f. (relative_path f, file_strings identifiers f))
        (filter (recorded unicode_lower excluded_dirs identifiers) files)"
    using walk_all_strings[OF w d] by simp
  from walk_readable[OF w] e t show "(\<forall>f \<in> set files. is_excluded unicode_lower excluded_dirs f \<or>
        contents f \<noteq> UnicodeError \<and> contents f \<noteq> OtherError) \<and>
     list_all (encodable_block encoding)
       (map (\<lambda>f. (relative_path f, file_strings identifiers f))
          (filter (recorded unicode_lower excluded_dirs identifiers) files)) \<and>
     target r = concat (map block
       (map (\<lambda>f. (relative_path f, file_strings identifiers f))
          (filter (recorded unicode_lower excluded_dirs identifiers) files)))"
    unfolding al by simp
qed

lemma process_directory_completes:
  assumes d: "distinct (map relative_path files)"
    and r: "\<forall>f \<in> set files. is_excluded unicode_lower excluded_dirs f \<or>
        contents f \<noteq> UnicodeError \<and> contents f \<noteq> OtherError"
    and e: "list_all (encodable_block encoding)
       (map (\<lambda>f. (relative_path f, file_strings identifiers f))
          (filter (recorded unicode_lower excluded_dirs identifiers) files))"
  shows "\<exists>r. process_directory unicode_lower files old_target excluded_dirs identifiers encoding = Inr r \<and>
     target r = concat (map block
       (map (\<lambda>f. (relative_path f, file_strings identifiers f))
          (filter (recorded unicode_lower excluded_dirs identifiers) files)))"
proof -
  from walk_total[OF r] obtain st where
    w: "walk unicode_lower excluded_dirs identifiers encoding files
          \<lparr>all_strings = [], file_count = 0, console = []\<rparr> = Inr st"
    by blast
  have al: "all_strings st =
      map (\<lambda>f. (relative_path f, file_strings identifiers f))
        (filter (recorded unicode_lower excluded_dirs identifiers) files)"
    using walk_all_strings[OF w d] by simp
  let ?r = "\<lparr>target = concat (map block (all_strings st)), processed = file_count st,
                printed = console st\<rparr>"
  from e have e': "list_all (encodable_block encoding) (all_strings st)"
    unfolding al .
  from w e' have "process_directory unicode_lower files old_target excluded_dirs identifiers
      encoding = Inr ?r"
    unfolding process_directory_Inr by blast
  moreover have "target ?r = concat (map block
       (map (\<lambda>f. (relative_path f, file_strings identifiers f))
          (filter (recorded unicode_lower excluded_dirs identifiers) files)))"
    unfolding al by simp
  ultimately show ?thesis by blast
qed

lemma process_directory_split:
  assumes d: "distinct (map relative_path (xs @ f # ys))"
    and p: "process_directory unicode_lower (xs @ f # ys) old_target excluded_dirs identifiers
       encoding = Inr r"
    and f: "recorded unicode_lower excluded_dirs identifiers f"
  shows "\<exists>r1 r2.
     process_directory unicode_lower xs old_target excluded_dirs identifiers encoding = Inr r1 \<and>
     process_directory unicode_lower ys old_target excluded_dirs identifiers encoding = Inr r2 \<and>
     target r = target r1 @ block (relative_path f, file_strings identifiers f) @ target r2"
proof -
  from process_directory_blocks[OF d, of unicode_lower old_target excluded_dirs identifiers
      encoding r] p
  have rd: "\<forall>f \<in> set (xs @ f # ys). is_excluded unicode_lower excluded_dirs f \<or>
        contents f \<noteq> UnicodeError \<and> contents f \<noteq> OtherError"
    and e: "list_all (encodable_block encoding)
       (map (\<lambda>f. (relative_path f, file_strings identifiers f))
          (filter (recorded unicode_lower excluded_dirs identifiers) (xs @ f # ys)))"
    and t: "target r = concat (map block
       (map (\<lambda>f. (relative_path f, file_strings identifiers f))
          (filter (recorded unicode_lower excluded_dirs identifiers) (xs @ f # ys))))"
    by blast+
  from d have dx: "distinct (map relative_path xs)" and dy: "distinct (map relative_path ys)"
    by simp_all
  from rd have rx: "\<forall>f \<in> set xs. is_excluded unicode_lower excluded_dirs f \<or>
        contents f \<noteq> UnicodeError \<and> contents f \<noteq> OtherError"
    and ry: "\<forall>f \<in> set ys. is_excluded unicode_lower excluded_dirs f \<or>
        contents f \<noteq> UnicodeError \<and> contents f \<noteq> OtherError"
    by simp_all
  from e have ex: "list_all (encodable_block encoding)
       (map (\<lambda>f. (relative_path f, file_strings identifiers f))
          (filter (recorded unicode_lower excluded_dirs identifiers) xs))"
    and ey: "list_all (encodable_block encoding)
       (map (\<lambda>f. (relative_path f, file_strings identifiers f))
          (filter (recorded unicode_lower excluded_dirs identifiers) ys))"
    using f by simp_all
  from process_directory_completes[OF dx rx ex, of old_target] obtain r1 where
    r1: "process_directory unicode_lower xs old_target excluded_dirs identifiers encoding = Inr r1"
    "target r1 = concat (map block
       (map (\<lambda>f. (relative_path f, file_strings identifiers f))
          (filter (recorded unicode_lower excluded_dirs identifiers) xs)))"
    by blast
  from process_directory_completes[OF dy ry ey, of old_target] obtain r2 where
    r2: "process_directory unicode_lower ys old_target excluded_dirs identifiers encoding = Inr r2"
    "target r2 = concat (map block
       (map (\<lambda>f. (relative_path f, file_strings identifiers f))
          (filter (recorded unicode_lower excluded_dirs identifiers) ys)))"
    by blast
  have "target r = target r1 @ block (relative_path f, file_strings identifiers f) @ target r2"
    unfolding t r1(2) r2(2) using f by simp
  with r1(1) r2(1) show ?thesis by blast
qed

lemma list_of_images:
  "\<forall>x \<in> set xs. \<exists>f \<in> A. P f \<and> x = g f \<Longrightarrow>
   \<exists>fs. set fs \<subseteq> A \<and> (\<forall>f \<in> set fs. P f) \<and> xs = map g fs"
proof (induction xs)
  case Nil
  show ?case by (rule exI[of _ "[]"]) simp
next
  case (Cons x xs)
  from Cons.prems have "\<forall>x \<in> set xs. \<exists>f \<in> A. P f \<and> x = g f" by simp
  from Cons.IH[OF this] obtain fs where
    fs: "set fs \<subseteq> A" "\<forall>f \<in> set fs. P f" "xs = map g fs"
    by blast
  from Cons.prems obtain f where f: "f \<in> A" "P f" "x = g f" by auto
  show ?case by (rule exI[of _ "f # fs"]) (use f fs in simp)
qed

lemma file_strings_no_newline:
  "(k, v) \<in> set (file_strings identifiers f) \<Longrightarrow> 10 \<notin> set v"
proof -
  assume a: "(k, v) \<in> set (file_strings identifiers f)"
  then obtain content where c: "contents f = Decoded content"
    by (cases "contents f") (simp_all add: file_strings_def)
  with a have "(k, v) \<in> set (store_matches [] (findall identifiers content))"
    by (simp add: file_strings_def)
  with store_matches_set obtain m where m: "m \<in> set (findall identifiers content)"
    "(k, v) = entry_of m"
    by blast
  then show "10 \<notin> set v"
    using findall_groups[of "fst m" "fst (snd m)" "snd (snd m)" identifiers content]
      lit_cp_no_newline
    by (auto simp: entry_of_def)
qed

subsection \<open>The example inputs\<close>

lemmas eval_defs = str_def match_at_def alternatives_def after_ident_eq quoted_eq closing_def
  is_space_def is_open_def is_quote_def is_close_def lit_cp_def findall.simps composite_key_def
  extract_localization_strings_def process_directory_def is_excluded_def
  get_default_excluded_dirs_def str_lower_def lower_cp_def block_def
  entry_line_def open_w_def decode_message_def file_write_def utf8_def utf16_def ascii_def

lemma ids_default_eq: "ids_default = [str ''L'', str ''AL'', str ''C'']"
  by (simp add: ids_default_def str_def)

lemma findall_core:
  \<open>findall [str ''L'', str ''AL'', str ''C'']
     (str ''x = L["Hello"]'' @ [10] @ str ''y = AL('World')'' @ [10]) =
   [(str ''L'', 34, str ''Hello''), (str ''AL'', 39, str ''World'')]\<close>
  by (simp add: eval_defs)

lemma extract_core:
  \<open>extract_localization_strings core_lua ids_default encoding =
     Inr ([(str ''L["Hello"]'', str ''Hello''), (str ''AL["World"]'', str ''World'')], [])\<close>
  using findall_core
  by (simp add: core_lua_def ids_default_eq extract_localization_strings_def composite_key_def str_def)

lemma extract_broken:
  "extract_localization_strings broken_lua identifiers encoding =
     Inr ([], [decode_message (str ''/addon/broken.lua'') (codec_name encoding)])"
  by (simp add: broken_lua_def extract_localization_strings_def)

lemma extract_plain:
  "extract_localization_strings plain_lua ids_default encoding = Inr ([], [])"
  by (simp add: plain_lua_def ids_default_eq eval_defs)

lemma excluded_examples:
  "\<not> is_excluded unicode_lower get_default_excluded_dirs core_lua"
  "\<not> is_excluded unicode_lower get_default_excluded_dirs broken_lua"
  "\<not> is_excluded unicode_lower get_default_excluded_dirs plain_lua"
  "is_excluded unicode_lower get_default_excluded_dirs libs_lua"
  by (simp_all add: is_excluded_def get_default_excluded_dirs_def str_lower_def lower_cp_def
      str_def core_lua_def broken_lua_def plain_lua_def libs_lua_def)


lemma findall_dup_default:
  \<open>findall [str ''L'', str ''AL'', str ''C''] (str ''L["a"] L('a') L["b"] L["a"]'') =
   [(str ''L'', 34, str ''a''), (str ''L'', 39, str ''a''), (str ''L'', 34, str ''b''),
    (str ''L'', 34, str ''a'')]\<close>
  by (simp add: eval_defs)

lemma extract_dup:
  \<open>extract_localization_strings dup_lua ids_default encoding =
     Inr ([(str ''L["a"]'', str ''a''), (str ''L["b"]'', str ''b'')], [])\<close>
  using findall_dup_default
  by (simp add: dup_lua_def ids_default_eq extract_localization_strings_def composite_key_def str_def)

lemma excluded_dup: "\<not> is_excluded unicode_lower get_default_excluded_dirs dup_lua"
  by (simp add: is_excluded_def get_default_excluded_dirs_def str_lower_def lower_cp_def
      str_def dup_lua_def)

lemma relative_examples:
  "relative_path core_lua = str ''core.lua''" "relative_path broken_lua = str ''broken.lua''"
  "relative_path plain_lua = str ''ui/plain.lua''" "relative_path libs_lua = str ''libs/ace.lua''"
  "relative_path dup_lua = str ''dup.lua''"
  by (simp_all add: core_lua_def broken_lua_def plain_lua_def libs_lua_def dup_lua_def)

lemma run_example:
  \<open>process_directory unicode_lower [core_lua, libs_lua, broken_lua, plain_lua, dup_lua] old_target
     get_default_excluded_dirs ids_default utf8 =
   Inr \<lparr>target =
          str ''--core.lua'' @ [10] @
          str ''L["Hello"] = "Hello"'' @ [10] @
          str ''AL["World"] = "World"'' @ [10] @ [10] @
          str ''--dup.lua'' @ [10] @
          str ''L["a"] = "a"'' @ [10] @
          str ''L["b"] = "b"'' @ [10] @ [10],
        processed = 4,
        printed =
          [str ''Processing: core.lua'', str ''Processing: broken.lua'',
           str ''Error: Unable to decode /addon/broken.lua with utf-8 encoding.'',
           str ''Processing: ui/plain.lua'', str ''Processing: dup.lua'']\<rparr>\<close>
  by (simp add: process_directory_def excluded_examples excluded_dup extract_core extract_broken
      extract_plain extract_dup relative_examples block_def entry_line_def
      open_w_def decode_message_def file_write_def utf8_def str_def)

lemma contents_core:
  \<open>contents core_lua = Decoded (str ''x = L["Hello"]'' @ [10] @ str ''y = AL('World')'' @ [10])\<close>
  by (simp add: core_lua_def)

lemma distinct_example:
  "distinct (map relative_path [core_lua, libs_lua, broken_lua, plain_lua, dup_lua])"
  by (simp add: relative_examples str_def)


lemma run_core:
  \<open>process_directory unicode_lower [core_lua] old_target
     get_default_excluded_dirs ids_default utf8 =
   Inr \<lparr>target =
          str ''--core.lua'' @ [10] @
          str ''L["Hello"] = "Hello"'' @ [10] @
          str ''AL["World"] = "World"'' @ [10] @ [10],
        processed = 1,
        printed = [str ''Processing: core.lua'']\<rparr>\<close>
  by (simp add: process_directory_def excluded_examples extract_core
      relative_examples entry_line_def open_w_def file_write_def utf8_def str_def)

lemma excluded_cafe: "\<not> is_excluded unicode_lower get_default_excluded_dirs cafe_lua"
  by (simp add: is_excluded_def get_default_excluded_dirs_def str_lower_def lower_cp_def
      str_def cafe_lua_def)

lemma findall_hello:
  \<open>findall [str ''L'', str ''AL'', str ''C''] (str ''L["Hello"]'') = [(str ''L'', 34, str ''Hello'')]\<close>
  by (simp add: eval_defs)

lemma extract_cafe:
  \<open>extract_localization_strings cafe_lua ids_default encoding =
     Inr ([(str ''L["Hello"]'', str ''Hello'')], [])\<close>
  using findall_hello
  by (simp add: cafe_lua_def ids_default_eq extract_localization_strings_def composite_key_def str_def)

lemma file_strings_cafe:
  \<open>file_strings ids_default cafe_lua = [(str ''L["Hello"]'', str ''Hello'')]\<close>
  using extract_file_strings[OF extract_cafe] by simp

lemma relative_cafe: "relative_path cafe_lua = str ''caf'' @ [233] @ str ''.lua''"
  by (simp add: cafe_lua_def)

lemma run_cafe:
  "process_directory unicode_lower [cafe_lua] old_target get_default_excluded_dirs ids_default
     ascii = Inl (UnicodeEncodeError [])"
  by (simp add: process_directory_def excluded_cafe extract_cafe
      relative_cafe entry_line_def open_w_def file_write_def ascii_def str_def)

lemma run_core_cafe:
  \<open>process_directory unicode_lower [core_lua, cafe_lua] old_target get_default_excluded_dirs
     ids_default ascii =
   Inl (UnicodeEncodeError
     (str ''--core.lua'' @ [10] @
      str ''L["Hello"] = "Hello"'' @ [10] @
      str ''AL["World"] = "World"'' @ [10] @ [10]))\<close>
  by (simp add: process_directory_def excluded_examples excluded_cafe extract_core extract_cafe
      relative_examples relative_cafe entry_line_def open_w_def file_write_def ascii_def str_def)

lemma distinct_core_cafe: "distinct (map relative_path [core_lua, cafe_lua])"
  by (simp add: relative_examples relative_cafe str_def)

lemma run_core_dup:
  \<open>process_directory unicode_lower [core_lua, dup_lua] old_target
     get_default_excluded_dirs ids_default utf8 =
   Inr \<lparr>target =
          str ''--core.lua'' @ [10] @
          str ''L["Hello"] = "Hello"'' @ [10] @
          str ''AL["World"] = "World"'' @ [10] @ [10] @
          str ''--dup.lua'' @ [10] @
          str ''L["a"] = "a"'' @ [10] @
          str ''L["b"] = "b"'' @ [10] @ [10],
        processed = 2,
        printed = [str ''Processing: core.lua'', str ''Processing: dup.lua'']\<rparr>\<close>
  by (simp add: process_directory_def excluded_examples excluded_dup extract_core extract_dup
      relative_examples entry_line_def open_w_def file_write_def utf8_def str_def)

lemma run_nothing:
  "process_directory unicode_lower [] old_target excluded_dirs identifiers encoding =
     Inr \<lparr>target = [], processed = 0, printed = []\<rparr>"
  by (simp add: process_directory_def open_w_def)

lemma excluded_dict: "\<not> is_excluded unicode_lower get_default_excluded_dirs (dict_lua written)"
  by (simp add: is_excluded_def get_default_excluded_dirs_def str_lower_def lower_cp_def
      str_def dict_lua_def)

lemma findall_written:
  \<open>findall [str ''L'', str ''AL'', str ''C'']
     (str ''--core.lua'' @ [10] @
      str ''L["Hello"] = "Hello"'' @ [10] @
      str ''AL["World"] = "World"'' @ [10] @ [10]) =
   [(str ''L'', 34, str ''Hello''), (str ''AL'', 34, str ''World'')]\<close>
  by (simp add: eval_defs)

lemma extract_dict:
  \<open>extract_localization_strings
     (dict_lua (str ''--core.lua'' @ [10] @
                str ''L["Hello"] = "Hello"'' @ [10] @
                str ''AL["World"] = "World"'' @ [10] @ [10]))
     ids_default encoding =
     Inr ([(str ''L["Hello"]'', str ''Hello''), (str ''AL["World"]'', str ''World'')], [])\<close>
  using findall_written
  by (simp add: dict_lua_def ids_default_eq extract_localization_strings_def composite_key_def str_def)

lemma relative_dict: "relative_path (dict_lua written) = str ''Dict/localization_strings.lua''"
  by (simp add: dict_lua_def)

section \<open>The claims\<close>

text \<open>
  C1. A file is to be skipped when a segment of its path equals an excluded name
  without regard to case. The path \<open>/addon/Locale/strings.lua\<close> has the segment
  \<open>Locale\<close>, which equals the default excluded name \<open>locale\<close> when both are lowercased.
  The walker lowercases the excluded name only and looks for it among the segments as
  they are written, so the file is not excluded: it is processed, counted, and gets a
  block in the target file. In the same way the default target directory \<open>Dict\<close> is
  not matched by the default excluded name \<open>dict\<close>.
\<close>

theorem capitalised_segment_is_walked:
  \<open>str ''Locale'' \<in> set (parts locale_lua) \<and>
   str_lower unicode_lower (str ''Locale'') = str_lower unicode_lower (str ''locale'') \<and>
   str ''locale'' \<in> get_default_excluded_dirs \<and>
   is_excluded unicode_lower get_default_excluded_dirs locale_lua = False \<and>
   is_excluded unicode_lower get_default_excluded_dirs target_lua = False \<and>
   process_directory unicode_lower [locale_lua] [] get_default_excluded_dirs ids_default utf8 =
     Inr \<lparr>target = str ''--Locale/strings.lua'' @ [10] @ str ''L["Hello"] = "Hello"'' @ [10, 10],
          processed = 1,
          printed = [str ''Processing: Locale/strings.lua'']\<rparr>\<close>
proof -
  have x: "is_excluded unicode_lower get_default_excluded_dirs locale_lua = False"
    by (simp add: is_excluded_def get_default_excluded_dirs_def str_lower_def lower_cp_def
        str_def locale_lua_def)
  have y: "is_excluded unicode_lower get_default_excluded_dirs target_lua = False"
    by (simp add: is_excluded_def get_default_excluded_dirs_def str_lower_def lower_cp_def
        str_def target_lua_def)
  have m: \<open>findall [str ''L'', str ''AL'', str ''C''] (str ''L["Hello"] = "Hallo"'' @ [10]) =
      [(str ''L'', 34, str ''Hello'')]\<close>
    by (simp add: eval_defs)
  have e: \<open>extract_localization_strings locale_lua ids_default encoding =
      Inr ([(str ''L["Hello"]'', str ''Hello'')], [])\<close> for encoding
    using m
    by (simp add: locale_lua_def ids_default_eq extract_localization_strings_def
        composite_key_def str_def)
  have r: "relative_path locale_lua = str ''Locale/strings.lua''"
    by (simp add: locale_lua_def)
  have p: \<open>process_directory unicode_lower [locale_lua] [] get_default_excluded_dirs ids_default utf8 =
     Inr \<lparr>target = str ''--Locale/strings.lua'' @ [10] @ str ''L["Hello"] = "Hello"'' @ [10, 10],
          processed = 1,
          printed = [str ''Processing: Locale/strings.lua'']\<rparr>\<close>
    by (simp add: process_directory_def x e r entry_line_def open_w_def file_write_def
        utf8_def str_def)
  have a: "str ''Locale'' \<in> set (parts locale_lua)"
    by (simp add: locale_lua_def)
  have b: "str_lower unicode_lower (str ''Locale'') = str_lower unicode_lower (str ''locale'')"
    by (simp add: str_lower_def lower_cp_def str_def)
  have c: "str ''locale'' \<in> get_default_excluded_dirs"
    by (simp add: get_default_excluded_dirs_def)
  from a b c x y p show ?thesis by (intro conjI)
qed

text \<open>
  C2. For a non-empty identifier list, the matches that \<open>findall\<close> reports are a scan
  of the content from left to right without overlap: at every place where the scan
  stands, a match is taken if and only if an occurrence starts there, that is one of
  the identifier tokens, optional white space, \<open>[\<close> or \<open>(\<close>, a quote, a run of code
  points that are neither that quote nor a line feed, the same quote, and \<open>]\<close> or \<open>)\<close>
  whichever bracket opened; each match reports its token, quote and literal.
\<close>

theorem findall_is_scan:
  "identifiers \<noteq> [] \<Longrightarrow> scanned identifiers s (findall identifiers s)"
proof (induction identifiers s rule: findall.induct)
  case (1 identifiers s)
  show ?case
  proof (cases "match_at identifiers s")
    case None
    show ?thesis
    proof (cases s)
      case Nil
      with None show ?thesis by (simp add: findall.simps scanned_end)
    next
      case (Cons c cs)
      have "\<forall>i ws ob q lit cb r. occurrence identifiers i ws ob q lit cb \<longrightarrow>
          c # cs \<noteq> occurrence_text i ws ob q lit cb @ r"
        using occurrence_match_at[OF "1.prems"] None Cons by metis
      moreover have "scanned identifiers cs (findall identifiers cs)"
        using "1.IH"(1)[OF None Cons "1.prems"] .
      ultimately have "scanned identifiers (c # cs) (findall identifiers cs)"
        by (rule scanned_skip)
      with None Cons show ?thesis by (simp add: findall_skip)
    qed
  next
    case (Some m)
    obtain i q lit rest where m: "m = (i, q, lit, rest)" by (cases m) auto
    from match_at_occurrence[OF "1.prems" Some[unfolded m]] obtain ws ob cb where
      o: "occurrence identifiers i ws ob q lit cb" and s: "s = occurrence_text i ws ob q lit cb @ rest"
      by blast
    have "scanned identifiers rest (findall identifiers rest)"
      using "1.IH"(2)[OF Some[unfolded m] refl refl refl "1.prems"] .
    with o have "scanned identifiers (occurrence_text i ws ob q lit cb @ rest)
        ((i, q, lit) # findall identifiers rest)"
      by (rule scanned_match)
    with s Some m show ?thesis by (simp add: findall_match)
  qed
qed

theorem findall_is_scan_witness:
  \<open>scanned [str ''L''] (str ''x = L["x")'') [(str ''L'', 34, str ''x'')]\<close>
proof -
  have \<open>findall [str ''L''] (str ''x = L["x")'') = [(str ''L'', 34, str ''x'')]\<close>
    by (simp add: eval_defs)
  with findall_is_scan[of "[str ''L'']" \<open>str ''x = L["x")''\<close>] show ?thesis by simp
qed

text \<open>
  C2 as it is written fails in two places. The text \<open>L["a\<close>, line feed, \<open>b"]\<close> is an
  identifier token, a bracket, a quote, a run without that quote, the quote and a
  bracket, and is not matched. With the empty identifier list, \<open>["x"]\<close> is matched,
  with the empty text as its identifier.
\<close>

theorem literal_with_newline_is_not_matched:
  \<open>spec_occurrence [str ''L''] (str ''L'') [] 91 34 [97, 10, 98] 93 \<and>
   occurrence_text (str ''L'') [] 91 34 [97, 10, 98] 93 = str ''L["a'' @ [10] @ str ''b"]'' \<and>
   findall [str ''L''] (str ''L["a'' @ [10] @ str ''b"]'') = [] \<and>
   findall [] (str ''["x"]'') = [([], 34, str ''x'')]\<close>
proof -
  have 1: \<open>spec_occurrence [str ''L''] (str ''L'') [] 91 34 [97, 10, 98] 93\<close>
    by (simp add: spec_occurrence_def is_open_def is_quote_def is_close_def)
  have 2: \<open>occurrence_text (str ''L'') [] 91 34 [97, 10, 98] 93 = str ''L["a'' @ [10] @ str ''b"]''\<close>
    by (simp add: occurrence_text_def str_def)
  have 3: \<open>findall [str ''L''] (str ''L["a'' @ [10] @ str ''b"]'') = []\<close>
    by (simp add: eval_defs)
  have 4: \<open>findall [] (str ''["x"]'') = [([], 34, str ''x'')]\<close>
    by (simp add: eval_defs)
  from 1 2 3 4 show ?thesis by (intro conjI)
qed

text \<open>
  C3. A file with the occurrences \<open>L["Hello"]\<close> and \<open>AL('World')\<close>, read with the
  identifiers \<open>L,AL,C\<close>, gives the two entries \<open>L["Hello"]\<close> to \<open>Hello\<close> and
  \<open>AL["World"]\<close> to \<open>World\<close>. For every file, each entry of the dictionary has as key
  the identifier of a match, \<open>["\<close>, its literal and \<open>"]\<close>, and as value that literal,
  whatever quote and bracket the match had; and the key of every match is in the dictionary.
\<close>

theorem canonical_composite_keys:
  \<open>extract_localization_strings
     \<lparr>parts = ps, path_str = p, relative_path = rp,
      contents = Decoded (str ''x = L["Hello"]'' @ [10] @ str ''y = AL('World')'' @ [10])\<rparr>
     (str_split 44 (str ''L,AL,C'')) encoding =
     Inr ([(str ''L["Hello"]'', str ''Hello''), (str ''AL["World"]'', str ''World'')], []) \<and>
   (contents f = Decoded content \<longrightarrow>
      (\<exists>strings. extract_localization_strings f identifiers encoding = Inr (strings, []) \<and>
         (\<forall>(k, v) \<in> set strings. \<exists>(i, q, lit) \<in> set (findall identifiers content).
            k = i @ str ''["'' @ lit @ str ''"]'' \<and> v = lit) \<and>
         (\<forall>(i, q, lit) \<in> set (findall identifiers content).
            i @ str ''["'' @ lit @ str ''"]'' \<in> fst ` set strings)))\<close>
proof (intro conjI impI)
  show \<open>extract_localization_strings
     \<lparr>parts = ps, path_str = p, relative_path = rp,
      contents = Decoded (str ''x = L["Hello"]'' @ [10] @ str ''y = AL('World')'' @ [10])\<rparr>
     (str_split 44 (str ''L,AL,C'')) encoding =
     Inr ([(str ''L["Hello"]'', str ''Hello''), (str ''AL["World"]'', str ''World'')], [])\<close>
    using findall_core
    by (simp add: extract_localization_strings_def composite_key_def str_def)
next
  assume c: "contents f = Decoded content"
  let ?ms = "findall identifiers content"
  let ?d = "store_matches [] ?ms"
  have k: \<open>key_of m = fst m @ str ''["'' @ snd (snd m) @ str ''"]''\<close> for m
    by (simp add: key_of_def composite_key_def str_def)
  have 1: \<open>\<forall>(k, v) \<in> set ?d. \<exists>(i, q, lit) \<in> set ?ms.
            k = i @ str ''["'' @ lit @ str ''"]'' \<and> v = lit\<close>
  proof (clarify)
    fix a b assume "(a, b) \<in> set ?d"
    with store_matches_set[of ?ms] obtain m where in_ms: "m \<in> set ?ms" and ab: "(a, b) = entry_of m"
      by blast
    obtain i q lit where m: "m = (i, q, lit)" by (cases m) auto
    from ab have "a = composite_key i lit" "b = lit"
      by (simp_all add: m entry_of_def key_of_def)
    then have \<open>a = i @ str ''["'' @ lit @ str ''"]''\<close> "b = lit"
      by (simp_all add: composite_key_def str_def)
    with in_ms[unfolded m]
    show \<open>\<exists>(i, q, lit) \<in> set ?ms. a = i @ str ''["'' @ lit @ str ''"]'' \<and> b = lit\<close>
      by blast
  qed
  have ks: "fst ` set ?d = key_of ` set ?ms"
    using store_matches_keys[of ?ms] set_first_seen[of "map key_of ?ms"]
    by (metis set_map)
  have 2: \<open>\<forall>(i, q, lit) \<in> set ?ms. i @ str ''["'' @ lit @ str ''"]'' \<in> fst ` set ?d\<close>
  proof (clarify)
    fix i q lit assume "(i, q, lit) \<in> set ?ms"
    then have "key_of (i, q, lit) \<in> key_of ` set ?ms" by (rule imageI)
    then have "key_of (i, q, lit) \<in> fst ` set ?d" unfolding ks .
    then show \<open>i @ str ''["'' @ lit @ str ''"]'' \<in> fst ` set ?d\<close>
      unfolding k by simp
  qed
  from c 1 2 show \<open>\<exists>strings. extract_localization_strings f identifiers encoding = Inr (strings, []) \<and>
         (\<forall>(k, v) \<in> set strings. \<exists>(i, q, lit) \<in> set (findall identifiers content).
            k = i @ str ''["'' @ lit @ str ''"]'' \<and> v = lit) \<and>
         (\<forall>(i, q, lit) \<in> set (findall identifiers content).
            i @ str ''["'' @ lit @ str ''"]'' \<in> fst ` set strings)\<close>
    by (simp add: extract_Decoded)
qed

theorem canonical_composite_keys_witness:
  \<open>\<exists>strings. extract_localization_strings core_lua ids_default utf8 = Inr (strings, []) \<and>
     str ''AL["World"]'' \<in> fst ` set strings\<close>
proof -
  from canonical_composite_keys[where f = core_lua and identifiers = ids_default
      and encoding = utf8, THEN conjunct2, rule_format, OF contents_core]
  obtain strings where
    e: "extract_localization_strings core_lua ids_default utf8 = Inr (strings, [])"
    and k: \<open>\<forall>(i, q, lit) \<in> set (findall ids_default
          (str ''x = L["Hello"]'' @ [10] @ str ''y = AL('World')'' @ [10])).
        i @ str ''["'' @ lit @ str ''"]'' \<in> fst ` set strings\<close>
    by blast
  have \<open>(str ''AL'', 39, str ''World'') \<in> set (findall ids_default
          (str ''x = L["Hello"]'' @ [10] @ str ''y = AL('World')'' @ [10]))\<close>
    unfolding ids_default_eq findall_core by simp
  with k have \<open>str ''AL'' @ str ''["'' @ str ''World'' @ str ''"]'' \<in> fst ` set strings\<close>
    by blast
  moreover have \<open>str ''AL'' @ str ''["'' @ str ''World'' @ str ''"]'' = str ''AL["World"]''\<close>
    by (simp add: str_def)
  ultimately have \<open>str ''AL["World"]'' \<in> fst ` set strings\<close> by simp
  with e show ?thesis by blast
qed







text \<open>
  C6. In one file, matches with the same composite key make one entry, with the value
  of the last of them; the keys of the dictionary are distinct and stand in the order
  in which they were first met, and there are as many entries as distinct keys. In the
  target file of a run that completes, the block of the file stands between the output
  for the paths walked before it and the output for the paths walked after it, and has
  one line for each entry of the dictionary, in its order.
\<close>

theorem duplicate_keys_collapse:
  \<open>contents f = Decoded content \<Longrightarrow>
   \<exists>strings. extract_localization_strings f identifiers encoding = Inr (strings, []) \<and>
     distinct (map fst strings) \<and>
     map fst strings = first_seen (map key_of (findall identifiers content)) \<and>
     map_of strings = map_of (rev (map entry_of (findall identifiers content))) \<and>
     length strings = card (key_of ` set (findall identifiers content)) \<and>
     (distinct (map relative_path (xs @ f # ys)) \<and>
      \<not> is_excluded unicode_lower excluded_dirs f \<and>
      findall identifiers content \<noteq> [] \<and>
      process_directory unicode_lower (xs @ f # ys) old_target excluded_dirs identifiers encoding =
        Inr r \<longrightarrow>
      (\<exists>r1 r2.
         process_directory unicode_lower xs old_target excluded_dirs identifiers encoding = Inr r1 \<and>
         process_directory unicode_lower ys old_target excluded_dirs identifiers encoding = Inr r2 \<and>
         target r =
           target r1 @
           str ''--'' @ relative_path f @ [10] @
           concat (map (\<lambda>(k, v). k @ str '' = "'' @ v @ str ''"'' @ [10]) strings) @ [10] @
           target r2))\<close>
proof -
  assume c: "contents f = Decoded content"
  let ?ms = "findall identifiers content"
  let ?d = "store_matches [] ?ms"
  have "length ?d = length (map fst ?d)" by simp
  also have "\<dots> = card (set (map fst ?d))"
    using store_matches_distinct[of ?ms] by (simp only: distinct_card)
  also have "\<dots> = card (key_of ` set ?ms)"
    by (simp only: store_matches_keys set_first_seen set_map)
  finally have l: "length ?d = card (key_of ` set ?ms)" .
  have fs: "file_strings identifiers f = ?d"
    using c by (simp add: file_strings_def)
  have out: \<open>\<exists>r1 r2.
         process_directory unicode_lower xs old_target excluded_dirs identifiers encoding = Inr r1 \<and>
         process_directory unicode_lower ys old_target excluded_dirs identifiers encoding = Inr r2 \<and>
         target r =
           target r1 @
           str ''--'' @ relative_path f @ [10] @
           concat (map (\<lambda>(k, v). k @ str '' = "'' @ v @ str ''"'' @ [10]) ?d) @ [10] @
           target r2\<close>
    if a: "distinct (map relative_path (xs @ f # ys)) \<and>
      \<not> is_excluded unicode_lower excluded_dirs f \<and>
      findall identifiers content \<noteq> [] \<and>
      process_directory unicode_lower (xs @ f # ys) old_target excluded_dirs identifiers encoding =
        Inr r"
  proof -
    from a have "set (map fst ?d) \<noteq> {}"
      by (simp only: store_matches_keys set_first_seen) simp
    then have "?d \<noteq> []" by auto
    with a fs have rec: "recorded unicode_lower excluded_dirs identifiers f"
      by (simp add: recorded_def)
    from a have d: "distinct (map relative_path (xs @ f # ys))"
      and p: "process_directory unicode_lower (xs @ f # ys) old_target excluded_dirs identifiers
        encoding = Inr r"
      by blast+
    from process_directory_split[OF d p rec] show ?thesis
      unfolding fs block_format by simp
  qed
  from c have e: "extract_localization_strings f identifiers encoding = Inr (?d, [])"
    by (rule extract_Decoded)
  show ?thesis
    apply (rule exI[of _ ?d])
    apply (intro conjI impI)
         apply (rule e)
        apply (rule store_matches_distinct)
       apply (rule store_matches_keys)
      apply (rule store_matches_map_of)
     apply (rule l)
    apply (erule out)
    done
qed

theorem duplicate_keys_collapse_witness:
  \<open>\<exists>strings r. extract_localization_strings dup_lua ids_default utf8 = Inr (strings, []) \<and>
     distinct (map fst strings) \<and>
     map fst strings = [str ''L["a"]'', str ''L["b"]''] \<and>
     map_of strings (str ''L["a"]'') = Some (str ''a'') \<and>
     length strings = 2 \<and>
     process_directory id [core_lua, dup_lua] (str ''stale'') get_default_excluded_dirs
       ids_default utf8 = Inr r \<and>
     target r =
       str ''--core.lua'' @ [10] @
       str ''L["Hello"] = "Hello"'' @ [10] @
       str ''AL["World"] = "World"'' @ [10] @ [10] @
       str ''--dup.lua'' @ [10] @
       concat (map (\<lambda>(k, v). k @ str '' = "'' @ v @ str ''"'' @ [10]) strings) @ [10]\<close>
proof -
  let ?c = \<open>str ''L["a"] L('a') L["b"] L["a"]''\<close>
  let ?r = \<open>\<lparr>target =
          str ''--core.lua'' @ [10] @
          str ''L["Hello"] = "Hello"'' @ [10] @
          str ''AL["World"] = "World"'' @ [10] @ [10] @
          str ''--dup.lua'' @ [10] @
          str ''L["a"] = "a"'' @ [10] @
          str ''L["b"] = "b"'' @ [10] @ [10],
        processed = 2,
        printed = [str ''Processing: core.lua'', str ''Processing: dup.lua'']\<rparr>\<close>
  have c: "contents dup_lua = Decoded ?c"
    by (simp add: dup_lua_def)
  have fa: \<open>findall ids_default ?c =
      [(str ''L'', 34, str ''a''), (str ''L'', 39, str ''a''), (str ''L'', 34, str ''b''),
       (str ''L'', 34, str ''a'')]\<close>
    unfolding ids_default_eq by (rule findall_dup_default)
  have h: "distinct (map relative_path ([core_lua] @ dup_lua # [])) \<and>
      \<not> is_excluded id get_default_excluded_dirs dup_lua \<and>
      findall ids_default ?c \<noteq> [] \<and>
      process_directory id ([core_lua] @ dup_lua # []) (str ''stale'') get_default_excluded_dirs
        ids_default utf8 = Inr ?r"
    unfolding fa using run_core_dup[of id "str ''stale''"] excluded_dup[of id]
    by (simp add: relative_examples str_def)
  from duplicate_keys_collapse[OF c, of ids_default utf8 "[core_lua]" "[]" id
      get_default_excluded_dirs "str ''stale''" ?r]
  obtain strings where
    e: "extract_localization_strings dup_lua ids_default utf8 = Inr (strings, [])"
    and d: "distinct (map fst strings)"
    and k: "map fst strings = first_seen (map key_of (findall ids_default ?c))"
    and m: "map_of strings = map_of (rev (map entry_of (findall ids_default ?c)))"
    and l: "length strings = card (key_of ` set (findall ids_default ?c))"
    and o: \<open>distinct (map relative_path ([core_lua] @ dup_lua # [])) \<and>
      \<not> is_excluded id get_default_excluded_dirs dup_lua \<and>
      findall ids_default ?c \<noteq> [] \<and>
      process_directory id ([core_lua] @ dup_lua # []) (str ''stale'') get_default_excluded_dirs
        ids_default utf8 = Inr ?r \<longrightarrow>
      (\<exists>r1 r2.
         process_directory id [core_lua] (str ''stale'') get_default_excluded_dirs ids_default
           utf8 = Inr r1 \<and>
         process_directory id [] (str ''stale'') get_default_excluded_dirs ids_default utf8 =
           Inr r2 \<and>
         target ?r =
           target r1 @
           str ''--'' @ relative_path dup_lua @ [10] @
           concat (map (\<lambda>(k, v). k @ str '' = "'' @ v @ str ''"'' @ [10]) strings) @ [10] @
           target r2)\<close>
    by blast
  have k': \<open>map fst strings = [str ''L["a"]'', str ''L["b"]'']\<close>
    unfolding k fa by (simp add: first_seen_def key_of_def composite_key_def str_def)
  have m': \<open>map_of strings (str ''L["a"]'') = Some (str ''a'')\<close>
    unfolding m fa by (simp add: entry_of_def key_of_def composite_key_def str_def)
  have "length (map fst strings) = 2" unfolding k' by simp
  then have l': "length strings = 2" by simp
  from o h obtain r1 r2 where
    r1: "process_directory id [core_lua] (str ''stale'') get_default_excluded_dirs ids_default
           utf8 = Inr r1"
    and r2: "process_directory id [] (str ''stale'') get_default_excluded_dirs ids_default utf8 =
           Inr r2"
    and t: \<open>target ?r =
           target r1 @
           str ''--'' @ relative_path dup_lua @ [10] @
           concat (map (\<lambda>(k, v). k @ str '' = "'' @ v @ str ''"'' @ [10]) strings) @ [10] @
           target r2\<close>
    by blast
  from r1 have t1: \<open>target r1 = str ''--core.lua'' @ [10] @
          str ''L["Hello"] = "Hello"'' @ [10] @
          str ''AL["World"] = "World"'' @ [10] @ [10]\<close>
    unfolding run_core by auto
  from r2 have t2: "target r2 = []"
    unfolding run_nothing by auto
  have p: "process_directory id [core_lua, dup_lua] (str ''stale'') get_default_excluded_dirs
       ids_default utf8 = Inr ?r"
    by (rule run_core_dup)
  have t': \<open>target ?r =
       str ''--core.lua'' @ [10] @
       str ''L["Hello"] = "Hello"'' @ [10] @
       str ''AL["World"] = "World"'' @ [10] @ [10] @
       str ''--dup.lua'' @ [10] @
       concat (map (\<lambda>(k, v). k @ str '' = "'' @ v @ str ''"'' @ [10]) strings) @ [10]\<close>
    unfolding t t1 t2 relative_examples by (simp add: str_def)
  show ?thesis
    apply (rule exI[of _ strings])
    apply (rule exI[of _ ?r])
    apply (intro conjI)
          apply (rule e)
         apply (rule d)
        apply (rule k')
       apply (rule m')
      apply (rule l')
     apply (rule p)
    apply (rule t')
    done
qed

text \<open>
  C7. A run that completes leaves in the target file the serialization of the results
  and nothing else, whatever the file held before: for each walked path that is not
  excluded and gave at least one string, in the order of the walk, the line \<open>--\<close> with
  the relative path, a line \<open>KEY = "VALUE"\<close> for each key with the literal as it was
  extracted, and an empty line. A run in which a write raises \<open>UnicodeEncodeError\<close>
  leaves what was written before it, the beginning of that serialization. The paths of
  a walk are distinct.
\<close>

theorem target_is_serialization:
  \<open>distinct (map relative_path files) \<Longrightarrow>
   (process_directory unicode_lower files old_target excluded_dirs identifiers encoding = Inr r \<longrightarrow>
    target r =
      concat (map (\<lambda>f. str ''--'' @ relative_path f @ [10] @
                         concat (map (\<lambda>(k, v). k @ str '' = "'' @ v @ str ''"'' @ [10])
                                   (file_strings identifiers f)) @ [10])
                (filter (\<lambda>f. \<not> is_excluded unicode_lower excluded_dirs f \<and>
                               file_strings identifiers f \<noteq> [])
                   files))) \<and>
   (process_directory unicode_lower files old_target excluded_dirs identifiers encoding =
      Inl (UnicodeEncodeError t) \<longrightarrow>
    prefix t
      (concat (map (\<lambda>f. str ''--'' @ relative_path f @ [10] @
                         concat (map (\<lambda>(k, v). k @ str '' = "'' @ v @ str ''"'' @ [10])
                                   (file_strings identifiers f)) @ [10])
                (filter (\<lambda>f. \<not> is_excluded unicode_lower excluded_dirs f \<and>
                               file_strings identifiers f \<noteq> [])
                   files))))\<close>
proof -
  assume d: "distinct (map relative_path files)"
  have rec: "recorded unicode_lower excluded_dirs identifiers =
      (\<lambda>f. \<not> is_excluded unicode_lower excluded_dirs f \<and> file_strings identifiers f \<noteq> [])"
    by (simp add: recorded_def fun_eq_iff)
  have al: "all_strings st =
      map (\<lambda>f. (relative_path f, file_strings identifiers f))
        (filter (recorded unicode_lower excluded_dirs identifiers) files)"
    if "walk unicode_lower excluded_dirs identifiers encoding files
          \<lparr>all_strings = [], file_count = 0, console = []\<rparr> = Inr st" for st
    using walk_all_strings[OF that d] by simp
  show ?thesis
  proof (intro conjI impI)
    assume "process_directory unicode_lower files old_target excluded_dirs identifiers encoding =
      Inr r"
    then obtain st where
      w: "walk unicode_lower excluded_dirs identifiers encoding files
            \<lparr>all_strings = [], file_count = 0, console = []\<rparr> = Inr st"
      and t: "target r = concat (map block (all_strings st))"
      by (auto simp: process_directory_Inr)
    show \<open>target r =
      concat (map (\<lambda>f. str ''--'' @ relative_path f @ [10] @
                         concat (map (\<lambda>(k, v). k @ str '' = "'' @ v @ str ''"'' @ [10])
                                   (file_strings identifiers f)) @ [10])
                (filter (\<lambda>f. \<not> is_excluded unicode_lower excluded_dirs f \<and>
                               file_strings identifiers f \<noteq> [])
                   files))\<close>
      unfolding t al[OF w] serialization_format rec ..
  next
    assume "process_directory unicode_lower files old_target excluded_dirs identifiers encoding =
      Inl (UnicodeEncodeError t)"
    from process_directory_encode_error[OF this] obtain st where
      w: "walk unicode_lower excluded_dirs identifiers encoding files
            \<lparr>all_strings = [], file_count = 0, console = []\<rparr> = Inr st"
      and p: "prefix t (concat (map block (all_strings st)))"
      by blast
    from p show \<open>prefix t
      (concat (map (\<lambda>f. str ''--'' @ relative_path f @ [10] @
                         concat (map (\<lambda>(k, v). k @ str '' = "'' @ v @ str ''"'' @ [10])
                                   (file_strings identifiers f)) @ [10])
                (filter (\<lambda>f. \<not> is_excluded unicode_lower excluded_dirs f \<and>
                               file_strings identifiers f \<noteq> [])
                   files)))\<close>
      unfolding al[OF w] serialization_format rec .
  qed
qed

theorem target_is_serialization_witness:
  \<open>(\<exists>r. process_directory id [core_lua, libs_lua, broken_lua, plain_lua, dup_lua] (str ''stale'')
          get_default_excluded_dirs ids_default utf8 = Inr r \<and>
        target r =
          str ''--core.lua'' @ [10] @
          str ''L["Hello"] = "Hello"'' @ [10] @
          str ''AL["World"] = "World"'' @ [10] @ [10] @
          str ''--dup.lua'' @ [10] @
          str ''L["a"] = "a"'' @ [10] @
          str ''L["b"] = "b"'' @ [10] @ [10] \<and>
        target r =
          concat (map (\<lambda>f. str ''--'' @ relative_path f @ [10] @
                        concat (map (\<lambda>(k, v). k @ str '' = "'' @ v @ str ''"'' @ [10])
                                  (file_strings ids_default f)) @ [10])
               (filter (\<lambda>f. \<not> is_excluded id get_default_excluded_dirs f \<and>
                              file_strings ids_default f \<noteq> [])
                  [core_lua, libs_lua, broken_lua, plain_lua, dup_lua]))) \<and>
   process_directory id [core_lua, cafe_lua] (str ''stale'') get_default_excluded_dirs
     ids_default ascii =
     Inl (UnicodeEncodeError
       (str ''--core.lua'' @ [10] @
        str ''L["Hello"] = "Hello"'' @ [10] @
        str ''AL["World"] = "World"'' @ [10] @ [10])) \<and>
   prefix
     (str ''--core.lua'' @ [10] @
      str ''L["Hello"] = "Hello"'' @ [10] @
      str ''AL["World"] = "World"'' @ [10] @ [10])
     (concat (map (\<lambda>f. str ''--'' @ relative_path f @ [10] @
                        concat (map (\<lambda>(k, v). k @ str '' = "'' @ v @ str ''"'' @ [10])
                                  (file_strings ids_default f)) @ [10])
               (filter (\<lambda>f. \<not> is_excluded id get_default_excluded_dirs f \<and>
                              file_strings ids_default f \<noteq> [])
                  [core_lua, cafe_lua])))\<close>
proof (intro conjI)
  obtain r where r: "process_directory id [core_lua, libs_lua, broken_lua, plain_lua, dup_lua]
      (str ''stale'') get_default_excluded_dirs ids_default utf8 = Inr r"
    using run_example by blast
  with run_example[of id "str ''stale''"] have t: \<open>target r =
          str ''--core.lua'' @ [10] @
          str ''L["Hello"] = "Hello"'' @ [10] @
          str ''AL["World"] = "World"'' @ [10] @ [10] @
          str ''--dup.lua'' @ [10] @
          str ''L["a"] = "a"'' @ [10] @
          str ''L["b"] = "b"'' @ [10] @ [10]\<close>
    by auto
  from target_is_serialization[OF distinct_example, of id "str ''stale''"
      get_default_excluded_dirs ids_default utf8 r] t r
  show \<open>\<exists>r. process_directory id [core_lua, libs_lua, broken_lua, plain_lua, dup_lua] (str ''stale'')
          get_default_excluded_dirs ids_default utf8 = Inr r \<and>
        target r =
          str ''--core.lua'' @ [10] @
          str ''L["Hello"] = "Hello"'' @ [10] @
          str ''AL["World"] = "World"'' @ [10] @ [10] @
          str ''--dup.lua'' @ [10] @
          str ''L["a"] = "a"'' @ [10] @
          str ''L["b"] = "b"'' @ [10] @ [10] \<and>
        target r =
          concat (map (\<lambda>f. str ''--'' @ relative_path f @ [10] @
                        concat (map (\<lambda>(k, v). k @ str '' = "'' @ v @ str ''"'' @ [10])
                                  (file_strings ids_default f)) @ [10])
               (filter (\<lambda>f. \<not> is_excluded id get_default_excluded_dirs f \<and>
                              file_strings ids_default f \<noteq> [])
                  [core_lua, libs_lua, broken_lua, plain_lua, dup_lua]))\<close>
    by blast
next
  show \<open>process_directory id [core_lua, cafe_lua] (str ''stale'') get_default_excluded_dirs
     ids_default ascii =
     Inl (UnicodeEncodeError
       (str ''--core.lua'' @ [10] @
        str ''L["Hello"] = "Hello"'' @ [10] @
        str ''AL["World"] = "World"'' @ [10] @ [10]))\<close>
    by (rule run_core_cafe)
next
  from target_is_serialization[OF distinct_core_cafe, of id "str ''stale''"
      get_default_excluded_dirs ids_default ascii] run_core_cafe[of id "str ''stale''"]
  show \<open>prefix
     (str ''--core.lua'' @ [10] @
      str ''L["Hello"] = "Hello"'' @ [10] @
      str ''AL["World"] = "World"'' @ [10] @ [10])
     (concat (map (\<lambda>f. str ''--'' @ relative_path f @ [10] @
                        concat (map (\<lambda>(k, v). k @ str '' = "'' @ v @ str ''"'' @ [10])
                                  (file_strings ids_default f)) @ [10])
               (filter (\<lambda>f. \<not> is_excluded id get_default_excluded_dirs f \<and>
                              file_strings ids_default f \<noteq> [])
                  [core_lua, cafe_lua])))\<close>
    by blast
qed

text \<open>
  With the encoding \<open>ascii\<close> and a file whose name has a letter outside of it, the write
  of the comment line raises: the run does not complete and the target file, truncated
  when it was opened, stays empty, though the file gave a string.
\<close>

theorem unencodable_path_leaves_target_empty:
  \<open>process_directory id [cafe_lua] (str ''stale'') get_default_excluded_dirs ids_default ascii =
     Inl (UnicodeEncodeError []) \<and>
   is_excluded id get_default_excluded_dirs cafe_lua = False \<and>
   file_strings ids_default cafe_lua = [(str ''L["Hello"]'', str ''Hello'')] \<and>
   concat (map (\<lambda>f. str ''--'' @ relative_path f @ [10] @
                      concat (map (\<lambda>(k, v). k @ str '' = "'' @ v @ str ''"'' @ [10])
                                (file_strings ids_default f)) @ [10])
             (filter (\<lambda>f. \<not> is_excluded id get_default_excluded_dirs f \<and>
                            file_strings ids_default f \<noteq> [])
                [cafe_lua])) =
     str ''--caf'' @ [233] @ str ''.lua'' @ [10] @ str ''L["Hello"] = "Hello"'' @ [10, 10]\<close>
  by (simp add: run_cafe excluded_cafe file_strings_cafe relative_cafe str_def)

text \<open>
  C8. With the default arguments the target file \<open>Dict/localization_strings.lua\<close> lies
  in the walked tree, and its directory \<open>Dict\<close> is not excluded, as the segment is
  compared as written with the lowercased name \<open>dict\<close>. So a second run with the same
  arguments over the same sources finds the output of the first run among the walked
  files and writes a block for it: its target file is not that of the first run,
  whichever place the walk gives to the file.
\<close>

theorem second_run_reads_the_first_output:
  \<open>process_directory unicode_lower [core_lua] [] get_default_excluded_dirs ids_default utf8 =
     Inr \<lparr>target =
            str ''--core.lua'' @ [10] @
            str ''L["Hello"] = "Hello"'' @ [10] @
            str ''AL["World"] = "World"'' @ [10] @ [10],
          processed = 1,
          printed = [str ''Processing: core.lua'']\<rparr> \<and>
   is_excluded unicode_lower get_default_excluded_dirs
     (dict_lua (str ''--core.lua'' @ [10] @
                str ''L["Hello"] = "Hello"'' @ [10] @
                str ''AL["World"] = "World"'' @ [10] @ [10])) = False \<and>
   process_directory unicode_lower
     [core_lua,
      dict_lua (str ''--core.lua'' @ [10] @
                str ''L["Hello"] = "Hello"'' @ [10] @
                str ''AL["World"] = "World"'' @ [10] @ [10])]
     (str ''--core.lua'' @ [10] @
      str ''L["Hello"] = "Hello"'' @ [10] @
      str ''AL["World"] = "World"'' @ [10] @ [10])
     get_default_excluded_dirs ids_default utf8 =
     Inr \<lparr>target =
            str ''--core.lua'' @ [10] @
            str ''L["Hello"] = "Hello"'' @ [10] @
            str ''AL["World"] = "World"'' @ [10] @ [10] @
            str ''--Dict/localization_strings.lua'' @ [10] @
            str ''L["Hello"] = "Hello"'' @ [10] @
            str ''AL["World"] = "World"'' @ [10] @ [10],
          processed = 2,
          printed = [str ''Processing: core.lua'',
                     str ''Processing: Dict/localization_strings.lua'']\<rparr> \<and>
   process_directory unicode_lower
     [dict_lua (str ''--core.lua'' @ [10] @
                str ''L["Hello"] = "Hello"'' @ [10] @
                str ''AL["World"] = "World"'' @ [10] @ [10]),
      core_lua]
     (str ''--core.lua'' @ [10] @
      str ''L["Hello"] = "Hello"'' @ [10] @
      str ''AL["World"] = "World"'' @ [10] @ [10])
     get_default_excluded_dirs ids_default utf8 =
     Inr \<lparr>target =
            str ''--Dict/localization_strings.lua'' @ [10] @
            str ''L["Hello"] = "Hello"'' @ [10] @
            str ''AL["World"] = "World"'' @ [10] @ [10] @
            str ''--core.lua'' @ [10] @
            str ''L["Hello"] = "Hello"'' @ [10] @
            str ''AL["World"] = "World"'' @ [10] @ [10],
          processed = 2,
          printed = [str ''Processing: Dict/localization_strings.lua'',
                     str ''Processing: core.lua'']\<rparr>\<close>
proof (intro conjI)
  show \<open>process_directory unicode_lower [core_lua] [] get_default_excluded_dirs ids_default utf8 =
     Inr \<lparr>target =
            str ''--core.lua'' @ [10] @
            str ''L["Hello"] = "Hello"'' @ [10] @
            str ''AL["World"] = "World"'' @ [10] @ [10],
          processed = 1,
          printed = [str ''Processing: core.lua'']\<rparr>\<close>
    by (rule run_core)
next
  show \<open>is_excluded unicode_lower get_default_excluded_dirs
     (dict_lua (str ''--core.lua'' @ [10] @
                str ''L["Hello"] = "Hello"'' @ [10] @
                str ''AL["World"] = "World"'' @ [10] @ [10])) = False\<close>
    using excluded_dict by simp
next
  show \<open>process_directory unicode_lower
     [core_lua,
      dict_lua (str ''--core.lua'' @ [10] @
                str ''L["Hello"] = "Hello"'' @ [10] @
                str ''AL["World"] = "World"'' @ [10] @ [10])]
     (str ''--core.lua'' @ [10] @
      str ''L["Hello"] = "Hello"'' @ [10] @
      str ''AL["World"] = "World"'' @ [10] @ [10])
     get_default_excluded_dirs ids_default utf8 =
     Inr \<lparr>target =
            str ''--core.lua'' @ [10] @
            str ''L["Hello"] = "Hello"'' @ [10] @
            str ''AL["World"] = "World"'' @ [10] @ [10] @
            str ''--Dict/localization_strings.lua'' @ [10] @
            str ''L["Hello"] = "Hello"'' @ [10] @
            str ''AL["World"] = "World"'' @ [10] @ [10],
          processed = 2,
          printed = [str ''Processing: core.lua'',
                     str ''Processing: Dict/localization_strings.lua'']\<rparr>\<close>
    using extract_dict[of utf8]
    by (simp add: process_directory_def excluded_examples excluded_dict extract_core
        relative_examples relative_dict entry_line_def open_w_def file_write_def utf8_def str_def)
next
  show \<open>process_directory unicode_lower
     [dict_lua (str ''--core.lua'' @ [10] @
                str ''L["Hello"] = "Hello"'' @ [10] @
                str ''AL["World"] = "World"'' @ [10] @ [10]),
      core_lua]
     (str ''--core.lua'' @ [10] @
      str ''L["Hello"] = "Hello"'' @ [10] @
      str ''AL["World"] = "World"'' @ [10] @ [10])
     get_default_excluded_dirs ids_default utf8 =
     Inr \<lparr>target =
            str ''--Dict/localization_strings.lua'' @ [10] @
            str ''L["Hello"] = "Hello"'' @ [10] @
            str ''AL["World"] = "World"'' @ [10] @ [10] @
            str ''--core.lua'' @ [10] @
            str ''L["Hello"] = "Hello"'' @ [10] @
            str ''AL["World"] = "World"'' @ [10] @ [10],
          processed = 2,
          printed = [str ''Processing: Dict/localization_strings.lua'',
                     str ''Processing: core.lua'']\<rparr>\<close>
    using extract_dict[of utf8]
    by (simp add: process_directory_def excluded_examples excluded_dict extract_core
        relative_examples relative_dict entry_line_def open_w_def file_write_def utf8_def str_def)
qed

text \<open>
  C9. The pattern asks for no word boundary before the identifier. Let the token \<open>i\<close> of
  the list, after any text \<open>before\<close> (the beginning of a longer name that \<open>i\<close> ends, for
  one), be followed by optional white space and a bracketed quoted literal without a
  line feed. Let no occurrence of the pattern that starts earlier in the text reach
  into this one, and let no token that stands before \<open>i\<close> in the list start an
  occurrence at the same place. Then the search finds a match with the identifier \<open>i\<close>
  and this literal there and goes on behind it, and the dictionary of the file has the
  composite key of the bare identifier, \<open>i["lit"]\<close>.
\<close>

theorem identifier_matches_without_word_boundary:
  assumes o: "occurrence identifiers i ws ob q lit cb"
    and H1: "\<forall>k < length before. \<forall>j ws' ob' q' lit' cb' r.
        occurrence identifiers j ws' ob' q' lit' cb' \<and>
        drop k (before @ occurrence_text i ws ob q lit cb @ post) =
          occurrence_text j ws' ob' q' lit' cb' @ r \<longrightarrow>
        k + length (occurrence_text j ws' ob' q' lit' cb') \<le> length before"
    and H2: "\<forall>j \<in> set (takeWhile (\<lambda>j. j \<noteq> i) identifiers). \<forall>ws' ob' q' lit' cb' r.
        occurrence identifiers j ws' ob' q' lit' cb' \<longrightarrow>
        occurrence_text i ws ob q lit cb @ post \<noteq> occurrence_text j ws' ob' q' lit' cb' @ r"
  shows \<open>(\<exists>ms. findall identifiers (before @ occurrence_text i ws ob q lit cb @ post) =
                ms @ (i, q, lit) # findall identifiers post) \<and>
         (contents f = Decoded (before @ occurrence_text i ws ob q lit cb @ post) \<longrightarrow>
            (\<exists>strings. extract_localization_strings f identifiers encoding = Inr (strings, []) \<and>
               i @ str ''["'' @ lit @ str ''"]'' \<in> fst ` set strings))\<close>
proof -
  let ?t = "occurrence_text i ws ob q lit cb @ post"
  from o have i: "i \<in> set identifiers"
    by (simp add: occurrence_def spec_occurrence_def)
  then have ne: "identifiers \<noteq> []" by auto
  have H: "\<forall>k < length before. \<forall>j q' lit' rest.
           match_at identifiers (drop k (before @ ?t)) = Some (j, q', lit', rest) \<longrightarrow>
           length ?t \<le> length rest"
  proof (intro allI impI)
    fix k j q' lit' rest
    assume k: "k < length before"
      and m: "match_at identifiers (drop k (before @ ?t)) = Some (j, q', lit', rest)"
    from match_at_occurrence[OF ne m] obtain ws' ob' cb' where
      oc: "occurrence identifiers j ws' ob' q' lit' cb'"
      and d: "drop k (before @ ?t) = occurrence_text j ws' ob' q' lit' cb' @ rest"
      by blast
    from H1 k oc d have e: "k + length (occurrence_text j ws' ob' q' lit' cb') \<le> length before"
      by blast
    have "length (drop k (before @ ?t)) = length (occurrence_text j ws' ob' q' lit' cb' @ rest)"
      by (simp only: d)
    then have "length before + length ?t - k =
        length (occurrence_text j ws' ob' q' lit' cb') + length rest"
      by simp
    with e k show "length ?t \<le> length rest" by arith
  qed
  have n: "\<forall>j \<in> set (takeWhile (\<lambda>j. j \<noteq> i) identifiers).
        prefix j ?t \<longrightarrow> after_ident (drop (length j) ?t) = None"
  proof (intro ballI impI)
    fix j
    assume j: "j \<in> set (takeWhile (\<lambda>j. j \<noteq> i) identifiers)" and p: "prefix j ?t"
    from j have ji: "j \<in> set identifiers" by (rule set_takeWhileD[THEN conjunct1])
    show "after_ident (drop (length j) ?t) = None"
    proof (cases "after_ident (drop (length j) ?t)")
      case None
      then show ?thesis .
    next
      case (Some m)
      obtain q' lit' r where m: "m = (q', lit', r)" by (cases m) auto
      from Some m have "after_ident (drop (length j) ?t) = Some (q', lit', r)" by simp
      from after_ident_occurrence[OF ji p this] obtain ws' ob' cb' where
        "occurrence identifiers j ws' ob' q' lit' cb'"
        "?t = occurrence_text j ws' ob' q' lit' cb' @ r"
        by blast
      with H2 j have False by blast
      then show ?thesis ..
    qed
  qed
  from findall_reaches[OF ne H] obtain ms where
    ms: "findall identifiers (before @ ?t) = ms @ findall identifiers ?t"
    by blast
  have "findall identifiers ?t = (i, q, lit) # findall identifiers post"
    by (rule findall_match[OF match_at_first_token[OF o n]])
  with ms have m: "findall identifiers (before @ ?t) = ms @ (i, q, lit) # findall identifiers post"
    by simp
  have \<open>\<exists>strings. extract_localization_strings f identifiers encoding = Inr (strings, []) \<and>
          i @ str ''["'' @ lit @ str ''"]'' \<in> fst ` set strings\<close>
    if d: "contents f = Decoded (before @ ?t)"
  proof -
    let ?ms = "findall identifiers (before @ ?t)"
    have "key_of (i, q, lit) \<in> key_of ` set ?ms" unfolding m by simp
    also have "key_of ` set ?ms = fst ` set (store_matches [] ?ms)"
      using store_matches_keys[of ?ms] set_first_seen[of "map key_of ?ms"]
      by (metis set_map)
    finally have \<open>i @ str ''["'' @ lit @ str ''"]'' \<in> fst ` set (store_matches [] ?ms)\<close>
      by (simp add: key_of_def composite_key_def str_def)
    then show ?thesis by (simp add: extract_Decoded[OF d])
  qed
  with m show ?thesis by blast
qed


theorem identifier_matches_without_word_boundary_witness:
  \<open>(\<exists>ms. findall ids_default (str ''L["a"] x = MyL["x"]'') = ms @ [(str ''L'', 34, str ''x'')]) \<and>
   (\<exists>strings. extract_localization_strings spaced_lua ids_default utf8 = Inr (strings, []) \<and>
      str ''L["x"]'' \<in> fst ` set strings) \<and>
   (\<exists>ms. findall ids_default (str ''x = MyAL('y')'') = ms @ [(str ''AL'', 39, str ''y'')])\<close>
proof -
  have e: "findall ids_default [] = []"
    by (simp add: ids_default_eq eval_defs)
  have k: \<open>str ''L'' @ str ''["'' @ str ''x'' @ str ''"]'' = str ''L["x"]''\<close>
    by (simp add: str_def)
  have c: \<open>contents spaced_lua = Decoded (str ''L["a"] x = MyL["x"]'')\<close>
    by (simp add: spaced_lua_def)
  have o: "occurrence ids_default (str ''L'') [] 91 34 (str ''x'') 93"
    by (simp add: occurrence_def spec_occurrence_def ids_default_eq is_open_def is_quote_def
        is_close_def str_def)
  have t: \<open>str ''L["a"] x = My'' @ occurrence_text (str ''L'') [] 91 34 (str ''x'') 93 @ [] =
      str ''L["a"] x = MyL["x"]''\<close>
    by (simp add: occurrence_text_def str_def)
  have h1: \<open>\<forall>k < length (str ''L["a"] x = My''). \<forall>j ws' ob' q' lit' cb' r.
        occurrence ids_default j ws' ob' q' lit' cb' \<and>
        drop k (str ''L["a"] x = My'' @ occurrence_text (str ''L'') [] 91 34 (str ''x'') 93 @ []) =
          occurrence_text j ws' ob' q' lit' cb' @ r \<longrightarrow>
        k + length (occurrence_text j ws' ob' q' lit' cb') \<le> length (str ''L["a"] x = My'')\<close>
    by (rule occurrences_end_by_after_ident)
      (simp add: ids_default_eq occurrence_text_def str_def after_ident_eq quoted_eq closing_def
        is_space_def is_open_def is_quote_def is_close_def lit_cp_def)
  have h2: "\<forall>j \<in> set (takeWhile (\<lambda>j. j \<noteq> str ''L'') ids_default). \<forall>ws' ob' q' lit' cb' r.
        occurrence ids_default j ws' ob' q' lit' cb' \<longrightarrow>
        occurrence_text (str ''L'') [] 91 34 (str ''x'') 93 @ [] \<noteq>
          occurrence_text j ws' ob' q' lit' cb' @ r"
    by (simp add: ids_default_eq str_def)
  note T = identifier_matches_without_word_boundary[OF o h1 h2, of spaced_lua utf8,
      unfolded t k e]
  have o': "occurrence ids_default (str ''AL'') [] 40 39 (str ''y'') 41"
    by (simp add: occurrence_def spec_occurrence_def ids_default_eq is_open_def is_quote_def
        is_close_def str_def)
  have t': \<open>str ''x = My'' @ occurrence_text (str ''AL'') [] 40 39 (str ''y'') 41 @ [] =
      str ''x = MyAL('y')''\<close>
    by (simp add: occurrence_text_def str_def)
  have h1': \<open>\<forall>k < length (str ''x = My''). \<forall>j ws' ob' q' lit' cb' r.
        occurrence ids_default j ws' ob' q' lit' cb' \<and>
        drop k (str ''x = My'' @ occurrence_text (str ''AL'') [] 40 39 (str ''y'') 41 @ []) =
          occurrence_text j ws' ob' q' lit' cb' @ r \<longrightarrow>
        k + length (occurrence_text j ws' ob' q' lit' cb') \<le> length (str ''x = My'')\<close>
    by (rule occurrences_end_by_after_ident)
      (simp add: ids_default_eq occurrence_text_def str_def after_ident_eq quoted_eq closing_def
        is_space_def is_open_def is_quote_def is_close_def lit_cp_def)
  have h2': "\<forall>j \<in> set (takeWhile (\<lambda>j. j \<noteq> str ''AL'') ids_default). \<forall>ws' ob' q' lit' cb' r.
        occurrence ids_default j ws' ob' q' lit' cb' \<longrightarrow>
        occurrence_text (str ''AL'') [] 40 39 (str ''y'') 41 @ [] \<noteq>
          occurrence_text j ws' ob' q' lit' cb' @ r"
    by (simp add: ids_default_eq occurrence_text_def str_def)
  note T' = identifier_matches_without_word_boundary[OF o' h1' h2', of spaced_lua utf8,
      unfolded t' e]
  from T T' c show ?thesis by blast
qed

text \<open>
  C9 as it is written fails when a longer token of the list ends the name as well: with
  the identifiers \<open>L,AL,C\<close> the token \<open>L\<close> ends the name \<open>AL\<close>, and \<open>AL["x"]\<close> is recorded
  under the key \<open>AL["x"]\<close>, not \<open>L["x"]\<close>: the occurrence of \<open>AL\<close> starts earlier and
  reaches into that of \<open>L\<close>.
\<close>

theorem longer_token_takes_the_match:
  \<open>str ''L'' \<in> set ids_default \<and>
   str ''AL["x"]'' = str ''A'' @ str ''L'' @ str ''["x"]'' \<and>
   findall ids_default (str ''AL["x"]'') = [(str ''AL'', 34, str ''x'')] \<and>
   extract_localization_strings al_lua ids_default utf8 =
     Inr ([(str ''AL["x"]'', str ''x'')], []) \<and>
   str ''L["x"]'' \<noteq> str ''AL["x"]''\<close>
proof -
  have 1: "str ''L'' \<in> set ids_default" by (simp add: ids_default_eq)
  have 2: \<open>str ''AL["x"]'' = str ''A'' @ str ''L'' @ str ''["x"]''\<close> by (simp add: str_def)
  have 3: \<open>findall ids_default (str ''AL["x"]'') = [(str ''AL'', 34, str ''x'')]\<close>
    by (simp add: ids_default_eq eval_defs)
  have 4: \<open>extract_localization_strings al_lua ids_default encoding =
     Inr ([(str ''AL["x"]'', str ''x'')], [])\<close> for encoding
    using 3 by (simp add: al_lua_def extract_localization_strings_def composite_key_def str_def)
  have 5: \<open>str ''L["x"]'' \<noteq> str ''AL["x"]''\<close> by (simp add: str_def)
  from 1 2 3 4 5 show ?thesis by (intro conjI)
qed

text \<open>
  The two conditions are needed. In \<open>L('MyL["x"]')\<close> the match that starts at the first
  \<open>L\<close> takes the whole text, and the only key is \<open>L["MyL["x"]"]\<close>. With the identifiers
  \<open>L \<close> (with a space) and \<open>L\<close>, in this order, the text \<open>L ["x"]\<close> is an occurrence of
  both at the same place, and the match goes to the first of them.
\<close>

lemma earlier_match_or_token_takes_the_match:
  \<open>findall ids_default (str ''L('MyL["x"]')'') = [(str ''L'', 39, str ''MyL["x"]'')] \<and>
   findall [str ''L '', str ''L''] (str ''L ["x"]'') = [(str ''L '', 34, str ''x'')]\<close>
  by (simp add: ids_default_eq eval_defs)

text \<open>
  C10. An extracted literal never holds a line feed: no match of \<open>findall\<close> has one in
  its literal, so no value of the dictionary that \<open>extract_localization_strings\<close> returns
  has one; and the target file of a run that completes is made of blocks of walked
  files, each with the lines \<open>KEY = "VALUE"\<close> of the dictionary of its file, so that no
  value written there has one.
\<close>

theorem extracted_literal_has_no_newline:
  \<open>((i, q, lit) \<in> set (findall identifiers content) \<longrightarrow> 10 \<notin> set lit) \<and>
   (extract_localization_strings f identifiers encoding = Inr (strings, out) \<and>
      (k, v) \<in> set strings \<longrightarrow> 10 \<notin> set v) \<and>
   (process_directory unicode_lower files old_target excluded_dirs identifiers encoding = Inr r \<longrightarrow>
      (\<exists>fs. set fs \<subseteq> set files \<and>
         target r =
           concat (map (\<lambda>f. str ''--'' @ relative_path f @ [10] @
                              concat (map (\<lambda>(k, v). k @ str '' = "'' @ v @ str ''"'' @ [10])
                                        (file_strings identifiers f)) @ [10]) fs) \<and>
         (\<forall>f \<in> set fs. \<forall>(k, v) \<in> set (file_strings identifiers f). 10 \<notin> set v)))\<close>
proof (intro conjI impI)
  assume "(i, q, lit) \<in> set (findall identifiers content)"
  then show "10 \<notin> set lit"
    using findall_groups lit_cp_no_newline by blast
next
  assume a: "extract_localization_strings f identifiers encoding = Inr (strings, out) \<and>
      (k, v) \<in> set strings"
  then have "(k, v) \<in> set (file_strings identifiers f)"
    using extract_file_strings by blast
  then show "10 \<notin> set v" by (rule file_strings_no_newline)
next
  assume a: "process_directory unicode_lower files old_target excluded_dirs identifiers encoding =
    Inr r"
  then obtain st where
    w: "walk unicode_lower excluded_dirs identifiers encoding files
          \<lparr>all_strings = [], file_count = 0, console = []\<rparr> = Inr st"
    and t: "target r = concat (map block (all_strings st))"
    by (auto simp: process_directory_Inr)
  from walk_blocks_recorded[OF w]
  have "\<forall>fb \<in> set (all_strings st). \<exists>f \<in> set files.
      recorded unicode_lower excluded_dirs identifiers f \<and>
      fb = (relative_path f, file_strings identifiers f)" .
  from list_of_images[OF this] obtain fs where
    fs: "set fs \<subseteq> set files"
    "all_strings st = map (\<lambda>f. (relative_path f, file_strings identifiers f)) fs"
    by blast
  have v: "\<forall>f \<in> set fs. \<forall>(k, v) \<in> set (file_strings identifiers f). 10 \<notin> set v"
    using file_strings_no_newline by blast
  have t': \<open>target r =
      concat (map (\<lambda>f. str ''--'' @ relative_path f @ [10] @
                         concat (map (\<lambda>(k, v). k @ str '' = "'' @ v @ str ''"'' @ [10])
                                   (file_strings identifiers f)) @ [10]) fs)\<close>
    unfolding t fs(2) by (simp add: comp_def block_format)
  from fs(1) t' v show \<open>\<exists>fs. set fs \<subseteq> set files \<and>
         target r =
           concat (map (\<lambda>f. str ''--'' @ relative_path f @ [10] @
                              concat (map (\<lambda>(k, v). k @ str '' = "'' @ v @ str ''"'' @ [10])
                                        (file_strings identifiers f)) @ [10]) fs) \<and>
         (\<forall>f \<in> set fs. \<forall>(k, v) \<in> set (file_strings identifiers f). 10 \<notin> set v)\<close>
    by blast
qed


theorem extracted_literal_has_no_newline_witness:
  \<open>(str ''L'', 34, str ''Hello'') \<in>
     set (findall ids_default (str ''x = L["Hello"]'' @ [10] @ str ''y = AL('World')'' @ [10])) \<and>
   10 \<notin> set (str ''Hello'') \<and>
   extract_localization_strings core_lua ids_default utf8 =
     Inr ([(str ''L["Hello"]'', str ''Hello''), (str ''AL["World"]'', str ''World'')], []) \<and>
   10 \<notin> set (str ''World'') \<and>
   (\<exists>r fs.
      process_directory id [core_lua] [] get_default_excluded_dirs ids_default utf8 = Inr r \<and>
      set fs \<subseteq> {core_lua} \<and>
      target r =
        concat (map (\<lambda>f. str ''--'' @ relative_path f @ [10] @
                           concat (map (\<lambda>(k, v). k @ str '' = "'' @ v @ str ''"'' @ [10])
                                     (file_strings ids_default f)) @ [10]) fs) \<and>
      list_all (\<lambda>f. list_all (\<lambda>(k, v). 10 \<notin> set v) (file_strings ids_default f)) fs)\<close>
proof -
  let ?c = \<open>str ''x = L["Hello"]'' @ [10] @ str ''y = AL('World')'' @ [10]\<close>
  let ?d = \<open>[(str ''L["Hello"]'', str ''Hello''), (str ''AL["World"]'', str ''World'')]\<close>
  let ?r = \<open>\<lparr>target =
          str ''--core.lua'' @ [10] @
          str ''L["Hello"] = "Hello"'' @ [10] @
          str ''AL["World"] = "World"'' @ [10] @ [10],
        processed = 1,
        printed = [str ''Processing: core.lua'']\<rparr>\<close>
  have m: \<open>findall ids_default ?c =
      [(str ''L'', 34, str ''Hello''), (str ''AL'', 39, str ''World'')]\<close>
    unfolding ids_default_eq by (rule findall_core)
  have e: "extract_localization_strings core_lua ids_default utf8 = Inr (?d, [])"
    by (rule extract_core)
  have p: "process_directory id [core_lua] [] get_default_excluded_dirs ids_default utf8 = Inr ?r"
    by (rule run_core)
  note T = extracted_literal_has_no_newline[where i = "str ''L''" and q = 34
        and lit = "str ''Hello''" and identifiers = ids_default and content = ?c
        and f = core_lua and encoding = utf8 and strings = ?d and out = "[]"
        and k = \<open>str ''AL["World"]''\<close> and v = "str ''World''"
        and files = "[core_lua]" and old_target = "[]"
        and excluded_dirs = get_default_excluded_dirs and unicode_lower = id and r = ?r]
  have i: \<open>(str ''L'', 34, str ''Hello'') \<in> set (findall ids_default ?c)\<close>
    unfolding m by simp
  from T i have a: "10 \<notin> set (str ''Hello'')" by blast
  have \<open>extract_localization_strings core_lua ids_default utf8 = Inr (?d, []) \<and>
      (str ''AL["World"]'', str ''World'') \<in> set ?d\<close>
    using e by simp
  with T have b: "10 \<notin> set (str ''World'')" by blast
  from T p obtain fs where
    fs: "set fs \<subseteq> set [core_lua]"
    \<open>target ?r =
        concat (map (\<lambda>f. str ''--'' @ relative_path f @ [10] @
                           concat (map (\<lambda>(k, v). k @ str '' = "'' @ v @ str ''"'' @ [10])
                                     (file_strings ids_default f)) @ [10]) fs)\<close>
    "\<forall>f \<in> set fs. \<forall>(k, v) \<in> set (file_strings ids_default f). 10 \<notin> set v"
    by blast
  from fs(1) have s: "set fs \<subseteq> {core_lua}" by simp
  from fs(3) have l: "list_all (\<lambda>f. list_all (\<lambda>(k, v). 10 \<notin> set v) (file_strings ids_default f)) fs"
    by (simp add: list_all_iff)
  show ?thesis
    apply (intro conjI)
        apply (rule i)
       apply (rule a)
      apply (rule e)
     apply (rule b)
    apply (rule exI[of _ ?r])
    apply (rule exI[of _ fs])
    apply (intro conjI)
       apply (rule p)
      apply (rule s)
     apply (rule fs(2))
    apply (rule l)
    done
qed

end
